(* ===== verification/Prelude.thy ===== *)
theory Prelude
  imports Main "HOL-Library.Word" "HOL-Library.Char_ord" "HOL-Library.List_Lexorder"
begin

text \<open>
  Shared ground of the development: the Go types the program computes with (bytes, 64-bit
  integers, strings, maps ranged over in an arbitrary order, errors), the parts of the Go
  standard library it calls outside the codecs (\<open>strconv.Itoa\<close>, \<open>net.JoinHostPort\<close>,
  \<open>strings.ToLower\<close>, \<open>strings.Contains\<close>, the \<open>%q\<close> verb, the \<open>errors\<close> package,
  \<open>time.Duration\<close>), and the generic lemmas on lists, words and transition systems that the
  component theories share.

  A Go string is a sequence of bytes, so it is an Isabelle \<open>string\<close> (a list of 8-bit
  characters); a \<open>[]byte\<close> is a list of 8-bit words.
\<close>

unbundle bit_operations_syntax

named_theorems go_simps \<open>rewrite rules for the Go library functions\<close>
named_theorems inv_intros \<open>invariant preservation, one rule per operation\<close>
named_theorems frame_simps \<open>fields an operation leaves unchanged\<close>

type_synonym byte = "8 word"
type_synonym int64 = "64 word"

text \<open>A point in time is a number of nanoseconds; a \<open>time.Duration\<close> is an \<open>int64\<close> of them.\<close>

type_synonym time = int
type_synonym duration = int64

text \<open>
  A \<open>map[string]string\<close> is an association list with distinct keys: the order of the list is
  the order in which a \<open>range\<close> loop happens to visit it, which Go leaves open.
\<close>

type_synonym strmap = "(string \<times> string) list"

definition bytes_of :: "string \<Rightarrow> byte list" where
  "bytes_of s = map (\<lambda>c. of_char c) s"

section \<open>Strings\<close>

text \<open>\<open>strconv.Itoa\<close>: the decimal digits of a number, with a sign.\<close>

fun itoa_nat :: "nat \<Rightarrow> string" where
  "itoa_nat n = (if n < 10 then [char_of (48 + n)] else itoa_nat (n div 10) @ [char_of (48 + n mod 10)])"

declare itoa_nat.simps [simp del]

definition Itoa :: "int \<Rightarrow> string" where
  "Itoa i = (if i < 0 then CHR ''-'' # itoa_nat (nat (- i)) else itoa_nat (nat i))"

text \<open>\<open>net.JoinHostPort\<close>: a host with a colon in it is taken for an IPv6 literal.\<close>

definition JoinHostPort :: "string \<Rightarrow> string \<Rightarrow> string" where
  "JoinHostPort host port =
     (if CHR '':'' \<in> set host then ''['' @ host @ '']:'' @ port else host @ '':'' @ port)"

text \<open>
  Tables of the Unicode standard that the Go library consults for text outside ASCII. The
  program never relies on their contents; they are a parameter.
\<close>

record golib =
  unicodeToLower :: "string \<Rightarrow> string"
  unicodeQuote :: "string \<Rightarrow> string"

definition is_ascii :: "string \<Rightarrow> bool" where
  "is_ascii s \<longleftrightarrow> list_all (\<lambda>c. of_char c < (128::nat)) s"

definition lower_char :: "char \<Rightarrow> char" where
  "lower_char c = (let n = of_char c :: nat in if 65 \<le> n \<and> n \<le> 90 then char_of (n + 32) else c)"

text \<open>\<open>strings.ToLower\<close>.\<close>

definition ToLower :: "golib \<Rightarrow> string \<Rightarrow> string" where
  "ToLower G s = (if is_ascii s then map lower_char s else unicodeToLower G s)"

text \<open>\<open>strings.Contains\<close>.\<close>

fun prefix_of :: "string \<Rightarrow> string \<Rightarrow> bool" where
  "prefix_of [] s = True"
| "prefix_of (c # cs) [] = False"
| "prefix_of (c # cs) (d # ds) = (c = d \<and> prefix_of cs ds)"

fun Contains :: "string \<Rightarrow> string \<Rightarrow> bool" where
  "Contains [] sub = (sub = [])"
| "Contains (c # cs) sub = (prefix_of sub (c # cs) \<or> Contains cs sub)"

text \<open>The \<open>%q\<close> verb on a string (\<open>strconv.Quote\<close>).\<close>

definition hex_digit :: "nat \<Rightarrow> char" where
  "hex_digit n = (if n < 10 then char_of (48 + n) else char_of (87 + n))"

definition quote_char :: "char \<Rightarrow> string" where
  "quote_char c = (let n = of_char c :: nat in
     if n = 34 \<or> n = 92 then [CHR 0x5C, c]
     else if 32 \<le> n \<and> n < 127 then [c]
     else if n = 7 then [CHR 0x5C, CHR ''a''] else if n = 8 then [CHR 0x5C, CHR ''b'']
     else if n = 12 then [CHR 0x5C, CHR ''f''] else if n = 10 then [CHR 0x5C, CHR ''n'']
     else if n = 13 then [CHR 0x5C, CHR ''r''] else if n = 9 then [CHR 0x5C, CHR ''t'']
     else if n = 11 then [CHR 0x5C, CHR ''v'']
     else [CHR 0x5C, CHR ''x'', hex_digit (n div 16), hex_digit (n mod 16)])"

definition Quote :: "golib \<Rightarrow> string \<Rightarrow> string" where
  "Quote G s = (if is_ascii s then CHR 0x22 # concat (map quote_char s) @ [CHR 0x22] else unicodeQuote G s)"

section \<open>Errors\<close>

text \<open>
  The error values the program builds or inspects. \<open>New\<close> is \<open>errors.New\<close> (the
  sentinels of the program, told apart by their text, and errors of other packages);
  \<open>Errorf p e q\<close> is \<open>fmt.Errorf\<close> with \<open>%w\<close> between two pieces of text;
  \<open>NetError\<close> is any error that implements \<open>net.Error\<close>, with its \<open>Timeout()\<close>.
  \<open>Panic\<close> is no error value of the program: a function that would dereference a nil pointer
  returns it, so that the absence of such panics can be stated.
\<close>

record tcp_error =
  ErrName :: string
  ErrMethod :: string
  ErrMessage :: string

datatype goerror =
    New string
  | Errorf string goerror string
  | EOF
  | NetError string bool
  | CorruptInputError nat
  | InvalidByteError byte
  | TCPError tcp_error
  | Panic string

text \<open>The \<open>%#U\<close> verb on a code point below 256.\<close>

definition upper_hex_digit :: "nat \<Rightarrow> char" where
  "upper_hex_digit n = (if n < 10 then char_of (48 + n) else char_of (55 + n))"

definition fmt_U :: "byte \<Rightarrow> string" where
  "fmt_U b = (let n = unat b in
     ''U+00'' @ [upper_hex_digit (n div 16), upper_hex_digit (n mod 16)] @
     (if 32 \<le> n \<and> n < 127 then '' '' @ [CHR 0x27, char_of n, CHR 0x27]
      else if 161 \<le> n \<and> n \<noteq> 173
        then '' '' @ [CHR 0x27, char_of (192 + n div 64), char_of (128 + n mod 64), CHR 0x27]
      else ''''))"

fun Error :: "goerror \<Rightarrow> string" where
  "Error (New m) = m"
| "Error (Errorf p e q) = p @ Error e @ q"
| "Error EOF = ''EOF''"
| "Error (NetError m t) = m"
| "Error (CorruptInputError n) = ''illegal base64 data at input byte '' @ Itoa (int n)"
| "Error (InvalidByteError b) = ''encoding/hex: invalid byte: '' @ fmt_U b"
| "Error (TCPError e) = ''TCP error during '' @ ErrMethod e @ '': '' @ ErrMessage e"
| "Error (Panic m) = m"

text \<open>\<open>errors.Is (err, target)\<close> for a target without an \<open>Is\<close> method of its own.\<close>

fun errors_Is :: "goerror \<Rightarrow> goerror \<Rightarrow> bool" where
  "errors_Is (Errorf p e q) target = (Errorf p e q = target \<or> errors_Is e target)"
| "errors_Is e target = (e = target)"

text \<open>\<open>errors.As (err, &netErr) && netErr.Timeout()\<close>: the first \<open>net.Error\<close> of the chain decides.\<close>

fun is_timeout :: "goerror \<Rightarrow> bool" where
  "is_timeout (Errorf p e q) = is_timeout e"
| "is_timeout (NetError m t) = t"
| "is_timeout e = False"

type_synonym 'a result = "goerror + 'a"

section \<open>Calls that may block\<close>

text \<open>
  The result of running a function of the program: it returns with a value, or the goroutine stays
  in a \<open>select\<close> none of whose cases is ever ready. Both come with the state reached, and what
  follows a blocked call does not run.
\<close>

datatype ('a, 's) run =
    Returns (returnValue: 'a) (stateOf: 's)
  | blocked: Blocks (stateOf: 's)

fun andThen :: "('a, 's) run \<Rightarrow> ('a \<Rightarrow> 's \<Rightarrow> ('b, 's) run) \<Rightarrow> ('b, 's) run" where
  "andThen (Returns x s) f = f x s"
| "andThen (Blocks s) f = Blocks s"

lemma andThen_Returns: "andThen r f = Returns y t \<longleftrightarrow> (\<exists>x s. r = Returns x s \<and> f x s = Returns y t)"
  by (cases r) auto

lemma andThen_Blocks: "andThen r f = Blocks t \<longleftrightarrow> r = Blocks t \<or> (\<exists>x s. r = Returns x s \<and> f x s = Blocks t)"
  by (cases r) auto

lemma blocked_andThen: "blocked (andThen r f) \<longleftrightarrow> blocked r \<or> (\<exists>x s. r = Returns x s \<and> blocked (f x s))"
  by (cases r) auto

lemma stateOf_andThen:
  "stateOf (andThen r f) = (case r of Returns x s \<Rightarrow> stateOf (f x s) | Blocks s \<Rightarrow> s)"
  by (cases r) auto

lemma andThen_pure [simp]: "stateOf (andThen r (\<lambda>x s. Returns (f x s) s)) = stateOf r"
  by (cases r) auto

lemma not_blocked: "\<not> blocked r \<longleftrightarrow> (\<exists>x s. r = Returns x s)"
  by (cases r) auto

section \<open>Time\<close>

definition Millisecond :: duration where
  "Millisecond = 1000000"

text \<open>\<open>time.Time.Add\<close> and \<open>time.Time.Sub\<close>, which saturates at the bounds of \<open>int64\<close>.\<close>

definition time_Add :: "time \<Rightarrow> duration \<Rightarrow> time" where
  "time_Add t d = t + sint d"

definition time_Sub :: "time \<Rightarrow> time \<Rightarrow> duration" where
  "time_Sub t u = word_of_int (max (- (2 ^ 63)) (min (2 ^ 63 - 1) (t - u)))"

text \<open>\<open>Duration.Milliseconds\<close>: an integer division that truncates towards zero.\<close>

definition Milliseconds :: "duration \<Rightarrow> int" where
  "Milliseconds d = sgn (sint d) * (\<bar>sint d\<bar> div 1000000)"

section \<open>Generic lemmas\<close>

lemma sint64_range: "- (2 ^ 63) \<le> sint (d :: int64)" "sint (d :: int64) < 2 ^ 63"
  using sint_greater_eq [of d] sint_lt [of d] by simp_all

lemma map_lower_fixed [go_simps]: "\<forall>c \<in> set s. \<not> (65 \<le> (of_char c :: nat) \<and> of_char c \<le> (90::nat)) \<Longrightarrow> map lower_char s = s"
  by (induction s) (auto simp: lower_char_def Let_def)

lemma lower_char_idem [simp]: "lower_char (lower_char c) = lower_char c"
  by (auto simp: lower_char_def Let_def)

lemma map_sum_Inr_iff [simp]: "map_sum id f r = Inr y \<longleftrightarrow> (\<exists>x. r = Inr x \<and> y = f x)"
  by (cases r) auto

lemma take_chunks: "take a xs @ take b (drop a xs) = take (a + b) xs"
  by (simp add: take_add)

text \<open>Reachability in a transition system, and the invariant rule every state machine here uses.\<close>

inductive reach :: "('s \<Rightarrow> bool) \<Rightarrow> ('s \<Rightarrow> 's \<Rightarrow> bool) \<Rightarrow> 's \<Rightarrow> bool" for init step where
  reach_init: "init s \<Longrightarrow> reach init step s"
| reach_step: "reach init step s \<Longrightarrow> step s t \<Longrightarrow> reach init step t"

lemma reach_trans: "step\<^sup>*\<^sup>* s t \<Longrightarrow> reach init step s \<Longrightarrow> reach init step t"
  by (induction rule: rtranclp_induct) (auto intro: reach_step)

locale transition_system =
  fixes init :: "'s \<Rightarrow> bool"
    and step :: "'s \<Rightarrow> 's \<Rightarrow> bool"
    and inv :: "'s \<Rightarrow> bool"
  assumes inv_init: "init s \<Longrightarrow> inv s"
    and inv_step: "inv s \<Longrightarrow> step s t \<Longrightarrow> inv t"
begin

lemma reach_inv: "reach init step s \<Longrightarrow> inv s"
  by (induction rule: reach.induct) (auto intro: inv_init inv_step)

lemma steps_inv: "step\<^sup>*\<^sup>* s t \<Longrightarrow> inv s \<Longrightarrow> inv t"
  by (induction rule: rtranclp_induct) (auto intro: inv_step)

end

end
