(* ===== verification/Codec.thy ===== *)
theory Codec
  imports Prelude
begin

text \<open>
  The decoders of the Go standard library that the write path selects by name:
  \<open>encoding/hex\<close> and \<open>encoding/base64\<close> (standard, URL and raw URL alphabets), with the
  encoders of RFC 4648 as their specification. The locale \<open>codec\<close> is the interface the write
  path relies on: a decoder undoes its encoder.
\<close>

section \<open>Hexadecimal\<close>

text \<open>\<open>reverseHexTable\<close>, with \<open>None\<close> for its entries above 15.\<close>

definition reverseHexTable :: "char \<Rightarrow> byte option" where
  "reverseHexTable c = (let n = of_char c :: nat in
     if 48 \<le> n \<and> n \<le> 57 then Some (of_nat (n - 48))
     else if 97 \<le> n \<and> n \<le> 102 then Some (of_nat (n - 87))
     else if 65 \<le> n \<and> n \<le> 70 then Some (of_nat (n - 55))
     else None)"

definition hexErrLength :: goerror where
  "hexErrLength = New ''encoding/hex: odd length hex string''"

text \<open>
  \<open>hex.DecodeString\<close>. On an odd length an invalid last character is reported before the
  length.
\<close>

fun hexDecodeString :: "string \<Rightarrow> byte list result" where
  "hexDecodeString [] = Inr []"
| "hexDecodeString [p] = (case reverseHexTable p of
       None \<Rightarrow> Inl (InvalidByteError (of_char p))
     | Some _ \<Rightarrow> Inl hexErrLength)"
| "hexDecodeString (p # q # s) = (case reverseHexTable p of
       None \<Rightarrow> Inl (InvalidByteError (of_char p))
     | Some a \<Rightarrow> (case reverseHexTable q of
         None \<Rightarrow> Inl (InvalidByteError (of_char q))
       | Some b \<Rightarrow> map_sum id ((#) (push_bit 4 a OR b)) (hexDecodeString s)))"

text \<open>The specification: two lower-case digits for each byte.\<close>

definition hexEncode :: "byte list \<Rightarrow> string" where
  "hexEncode bs = concat (map (\<lambda>b. [hex_digit (unat b div 16), hex_digit (unat b mod 16)]) bs)"

section \<open>Base64\<close>

record b64encoding =
  alphabet :: string
  padChar :: "char option"

definition encodeStd :: string where
  "encodeStd = ''ABCDEFGHIJKLMNOPQRSTUVWXYZabcdefghijklmnopqrstuvwxyz0123456789+/''"

definition encodeURL :: string where
  "encodeURL = ''ABCDEFGHIJKLMNOPQRSTUVWXYZabcdefghijklmnopqrstuvwxyz0123456789-_''"

definition StdEncoding :: b64encoding where
  "StdEncoding = \<lparr>alphabet = encodeStd, padChar = Some (CHR ''='')\<rparr>"

definition URLEncoding :: b64encoding where
  "URLEncoding = \<lparr>alphabet = encodeURL, padChar = Some (CHR ''='')\<rparr>"

definition RawURLEncoding :: b64encoding where
  "RawURLEncoding = \<lparr>alphabet = encodeURL, padChar = None\<rparr>"

fun position :: "string \<Rightarrow> char \<Rightarrow> nat option" where
  "position [] c = None"
| "position (d # ds) c = (if c = d then Some 0 else map_option Suc (position ds c))"

text \<open>The \<open>decodeMap\<close> of an encoding, with \<open>None\<close> for the entry 255.\<close>

definition decodeMap :: "b64encoding \<Rightarrow> char \<Rightarrow> byte option" where
  "decodeMap enc c = map_option of_nat (position (alphabet enc) c)"

definition newline :: "char \<Rightarrow> bool" where
  "newline c \<longleftrightarrow> c = CHR 0x0A \<or> c = CHR 0x0D"

definition skip_newlines :: "string \<Rightarrow> string" where
  "skip_newlines s = dropWhile newline s"

definition sextet :: "byte list \<Rightarrow> nat \<Rightarrow> 64 word" where
  "sextet ds i = (if i < length ds then ucast (ds ! i) else 0)"

text \<open>Four 6-bit digits make three bytes; missing digits are zero and \<open>n\<close> digits give \<open>n - 1\<close> bytes.\<close>

definition assemble :: "byte list \<Rightarrow> byte list" where
  "assemble ds =
     (let val = push_bit 18 (sextet ds 0) OR push_bit 12 (sextet ds 1) OR push_bit 6 (sextet ds 2) OR sextet ds 3
      in take (length ds - 1) [ucast (drop_bit 16 val), ucast (drop_bit 8 val), ucast val])"

text \<open>What \<open>decodeQuantum\<close> does from the first padding character on; \<open>s\<close> is what follows it, at offset \<open>si\<close>.\<close>

definition padding :: "b64encoding \<Rightarrow> string \<Rightarrow> nat \<Rightarrow> byte list \<Rightarrow> byte list result" where
  "padding enc s si ds =
     (let finish = (\<lambda>r ri. let r' = skip_newlines r in
        if r' \<noteq> [] then Inl (CorruptInputError (ri + (length r - length r'))) else Inr (assemble ds)) in
      if length ds < 2 then Inl (CorruptInputError (si - 1))
      else if length ds = 2 then
        (let s' = skip_newlines s; si' = si + (length s - length s') in
         case s' of [] \<Rightarrow> Inl (CorruptInputError si')
         | c # r \<Rightarrow> if Some c \<noteq> padChar enc then Inl (CorruptInputError (si' - 1)) else finish r (Suc si'))
      else finish s si)"

text \<open>
  \<open>Encoding.DecodeString\<close>: \<open>ds\<close> holds the digits of the current quantum and \<open>si\<close> the
  offset of the next character. Line breaks are skipped anywhere.
\<close>

fun b64Decode :: "b64encoding \<Rightarrow> string \<Rightarrow> nat \<Rightarrow> byte list \<Rightarrow> byte list result" where
  "b64Decode enc [] si ds =
     (if ds = [] then Inr []
      else if length ds = 1 \<or> padChar enc \<noteq> None then Inl (CorruptInputError (si - length ds))
      else Inr (assemble ds))"
| "b64Decode enc (c # s) si ds = (case decodeMap enc c of
       Some v \<Rightarrow>
         (if length ds = 3 then map_sum id ((@) (assemble (ds @ [v]))) (b64Decode enc s (Suc si) [])
          else b64Decode enc s (Suc si) (ds @ [v]))
     | None \<Rightarrow>
         (if newline c then b64Decode enc s (Suc si) ds
          else if Some c \<noteq> padChar enc then Inl (CorruptInputError si)
          else padding enc s (Suc si) ds))"

definition DecodeString :: "b64encoding \<Rightarrow> string \<Rightarrow> byte list result" where
  "DecodeString enc s = b64Decode enc s 0 []"

text \<open>The specification, RFC 4648: each three bytes become four digits, the last quantum is padded.\<close>

definition digit :: "nat \<Rightarrow> byte \<Rightarrow> byte \<Rightarrow> byte \<Rightarrow> byte" where
  "digit i a b c =
     (let val = push_bit 16 (ucast a) OR push_bit 8 (ucast b) OR ucast c :: 64 word
      in ucast (drop_bit (18 - 6 * i) val AND mask 6))"

definition digit_char :: "b64encoding \<Rightarrow> byte \<Rightarrow> char" where
  "digit_char enc d = alphabet enc ! unat d"

definition pad :: "b64encoding \<Rightarrow> nat \<Rightarrow> string" where
  "pad enc n = (case padChar enc of None \<Rightarrow> [] | Some c \<Rightarrow> replicate n c)"

fun b64Encode :: "b64encoding \<Rightarrow> byte list \<Rightarrow> string" where
  "b64Encode enc [] = []"
| "b64Encode enc [a] = map (digit_char enc) [digit 0 a 0 0, digit 1 a 0 0] @ pad enc 2"
| "b64Encode enc [a, b] = map (digit_char enc) [digit 0 a b 0, digit 1 a b 0, digit 2 a b 0] @ pad enc 1"
| "b64Encode enc (a # b # c # bs) =
     map (digit_char enc) [digit 0 a b c, digit 1 a b c, digit 2 a b c, digit 3 a b c] @ b64Encode enc bs"

section \<open>The interface of a codec\<close>

locale codec =
  fixes encode :: "byte list \<Rightarrow> string"
    and decode :: "string \<Rightarrow> byte list result"
  assumes decode_encode: "decode (encode bs) = Inr bs"
begin

lemma encode_inj: "encode bs = encode cs \<Longrightarrow> bs = cs"
  by (metis decode_encode sum.inject(2))

lemma decode_surj: "\<exists>s. decode s = Inr bs"
  using decode_encode by blast

end

section \<open>Hexadecimal is a codec\<close>

lemma hex_digit_cases: "n < 16 \<Longrightarrow> reverseHexTable (hex_digit n) = Some (of_nat n)"
  by (auto simp: reverseHexTable_def hex_digit_def Let_def)

lemma byte_lt: "unat (b::byte) < 256"
  using unsigned_less [of b, where ?'a = nat] by simp

lemma nibbles_join: "push_bit 4 (of_nat (unat (b::byte) div 16)) OR of_nat (unat b mod 16) = b"
proof -
  have hi: "(of_nat (unat b div 16) :: byte) = drop_bit 4 b"
    by (simp add: drop_bit_eq_div word_arith_nat_div)
  have lo: "(of_nat (unat b mod 16) :: byte) = take_bit 4 b"
    by (simp add: take_bit_eq_mod word_arith_nat_mod)
  show ?thesis unfolding hi lo by (rule bit_word_eqI) (auto simp: bit_simps)
qed

lemma hexDecode_hexEncode: "hexDecodeString (hexEncode bs) = Inr bs"
  by (induction bs) (simp_all add: hexEncode_def hex_digit_cases byte_lt nibbles_join less_mult_imp_div_less)

interpretation hex: codec hexEncode hexDecodeString
  by unfold_locales (rule hexDecode_hexEncode)


section \<open>Base64 is a codec\<close>

definition b64_ok :: "b64encoding \<Rightarrow> bool" where
  "b64_ok enc \<longleftrightarrow> distinct (alphabet enc) \<and> length (alphabet enc) = 64 \<and>
     (\<forall>c. padChar enc = Some c \<longrightarrow> c \<notin> set (alphabet enc) \<and> \<not> newline c)"

lemma b64_ok_encodings: "b64_ok StdEncoding" "b64_ok URLEncoding" "b64_ok RawURLEncoding"
  by (simp_all add: b64_ok_def StdEncoding_def URLEncoding_def RawURLEncoding_def encodeStd_def
      encodeURL_def newline_def)

lemma position_nth: "distinct al \<Longrightarrow> i < length al \<Longrightarrow> position al (al ! i) = Some i"
  by (induction al arbitrary: i) (auto simp: nth_Cons split: nat.splits)

lemma position_None: "c \<notin> set al \<Longrightarrow> position al c = None"
  by (induction al) auto

subsection \<open>Bits of digits and bytes\<close>

lemma byte_eqI:
  fixes a b :: byte
  assumes "bit a 0 = bit b 0" "bit a 1 = bit b 1" "bit a 2 = bit b 2" "bit a 3 = bit b 3"
    "bit a 4 = bit b 4" "bit a 5 = bit b 5" "bit a 6 = bit b 6" "bit a 7 = bit b 7"
  shows "a = b"
proof (rule bit_word_eqI)
  fix n assume "n < LENGTH(8)"
  then have "n \<in> {0, 1, 2, 3, 4, 5, 6, 7}" by auto
  then show "bit a n = bit b n" using assms by auto
qed

lemma byte_high_bit: "8 \<le> n \<Longrightarrow> \<not> bit (a::byte) n"
  by (auto dest: bit_imp_le_length)

lemma bit_digit:
  "bit (digit i a b c) n \<longleftrightarrow> n < 6 \<and> (let m = 18 - 6 * i + n in
     (16 \<le> m \<and> bit a (m - 16) \<or> 8 \<le> m \<and> bit b (m - 8) \<or> bit c m))"
  unfolding digit_def Let_def by (cases "n < 6") (auto simp: bit_simps dest: bit_imp_le_length)

lemma digit_less: "unat (digit i a b c) < 64"
proof -
  have "take_bit 6 (digit i a b c) = digit i a b c"
    by (rule bit_word_eqI) (auto simp: bit_simps bit_digit)
  then have "unat (digit i a b c) = take_bit 6 (unat (digit i a b c))"
    by (metis unsigned_take_bit_eq)
  then show ?thesis using take_bit_nat_less_exp [of 6 "unat (digit i a b c)"] by simp
qed

definition octets :: "byte \<Rightarrow> byte \<Rightarrow> byte \<Rightarrow> byte \<Rightarrow> nat \<Rightarrow> byte" where
  "octets p q r s k = ucast (drop_bit k
     (push_bit 18 (ucast p) OR push_bit 12 (ucast q) OR push_bit 6 (ucast r) OR ucast s :: 64 word))"

lemma bit_octets:
  "k \<le> 16 \<Longrightarrow> bit (octets p q r s k) n \<longleftrightarrow> n < 8 \<and>
     (18 \<le> n + k \<and> bit p (n + k - 18) \<or> 12 \<le> n + k \<and> bit q (n + k - 12) \<or>
      6 \<le> n + k \<and> bit r (n + k - 6) \<or> bit s (n + k))"
  unfolding octets_def by (cases "n < 8") (auto simp: bit_simps add.commute)

lemma octet_digits:
  "octets (digit 0 a b c) (digit 1 a b c) (digit 2 a b c) (digit 3 a b c) 16 = a"
  "octets (digit 0 a b c) (digit 1 a b c) (digit 2 a b c) (digit 3 a b c) 8 = b"
  "octets (digit 0 a b c) (digit 1 a b c) (digit 2 a b c) (digit 3 a b c) 0 = c"
  by (rule byte_eqI; simp add: bit_octets bit_digit Let_def byte_high_bit numeral_2_eq_2)+


lemma digit_zero:
  "digit 2 a 0 0 = 0" "digit 3 a 0 0 = 0" "digit 3 a b 0 = 0"
  by (rule byte_eqI; simp add: bit_digit Let_def)+

lemma assemble_octets:
  "assemble [p, q] = [octets p q 0 0 16]"
  "assemble [p, q, r] = [octets p q r 0 16, octets p q r 0 8]"
  "assemble [p, q, r, s] = [octets p q r s 16, octets p q r s 8, octets p q r s 0]"
  by (simp_all add: assemble_def sextet_def octets_def numeral_2_eq_2 numeral_3_eq_3)

lemma assemble_digits:
  "assemble [digit 0 a 0 0, digit 1 a 0 0] = [a]"
  "assemble [digit 0 a b 0, digit 1 a b 0, digit 2 a b 0] = [a, b]"
  "assemble [digit 0 a b c, digit 1 a b c, digit 2 a b c, digit 3 a b c] = [a, b, c]"
  using octet_digits [of a 0 0] octet_digits [of a b 0] octet_digits [of a b c]
  by (simp_all add: assemble_octets digit_zero)

subsection \<open>The round trip\<close>

lemma decodeMap_digit: "b64_ok enc \<Longrightarrow> decodeMap enc (digit_char enc (digit i a b c)) = Some (digit i a b c)"
  by (simp add: decodeMap_def digit_char_def b64_ok_def position_nth digit_less)

lemma decodeMap_pad: "b64_ok enc \<Longrightarrow> padChar enc = Some c \<Longrightarrow> decodeMap enc c = None"
  by (simp add: decodeMap_def b64_ok_def position_None)

lemma b64Decode_encode: "b64_ok enc \<Longrightarrow> b64Decode enc (b64Encode enc bs) si [] = Inr bs"
proof (induction enc bs arbitrary: si rule: b64Encode.induct)
  case (1 enc)
  then show ?case by simp
next
  case (2 enc a)
  then show ?case
    by (cases "padChar enc")
      (auto simp: decodeMap_digit decodeMap_pad pad_def padding_def skip_newlines_def
        assemble_digits [unfolded One_nat_def] b64_ok_def [of enc] numeral_2_eq_2)
next
  case (3 enc a b)
  then show ?case
    by (cases "padChar enc")
      (auto simp: decodeMap_digit decodeMap_pad pad_def padding_def skip_newlines_def
        assemble_digits [unfolded One_nat_def] b64_ok_def [of enc])
next
  case (4 enc a b c bs)
  then show ?case by (simp add: decodeMap_digit assemble_digits [unfolded One_nat_def])
qed

lemma DecodeString_b64Encode: "b64_ok enc \<Longrightarrow> DecodeString enc (b64Encode enc bs) = Inr bs"
  by (simp add: DecodeString_def b64Decode_encode)

interpretation std: codec "b64Encode StdEncoding" "DecodeString StdEncoding"
  by unfold_locales (simp add: DecodeString_b64Encode b64_ok_encodings)

interpretation url: codec "b64Encode URLEncoding" "DecodeString URLEncoding"
  by unfold_locales (simp add: DecodeString_b64Encode b64_ok_encodings)

interpretation rawurl: codec "b64Encode RawURLEncoding" "DecodeString RawURLEncoding"
  by unfold_locales (simp add: DecodeString_b64Encode b64_ok_encodings)

section \<open>What the hexadecimal decoder accepts\<close>

lemma reverseHexTable_Some:
  assumes "reverseHexTable c = Some a"
  shows "unat a < 16 \<and> hex_digit (unat a) = lower_char c"
proof -
  let ?n = "of_char c :: nat"
  have small: "m < 256 \<Longrightarrow> unat (of_nat m :: byte) = m" for m
    by (simp add: unat_of_nat)
  consider "48 \<le> ?n" "?n \<le> 57" "a = of_nat (?n - 48)" | "97 \<le> ?n" "?n \<le> 102" "a = of_nat (?n - 87)"
    | "65 \<le> ?n" "?n \<le> 70" "a = of_nat (?n - 55)"
    using assms by (auto simp: reverseHexTable_def Let_def simp del: of_nat_diff split: if_splits)
  then show ?thesis
    by cases (auto simp: small hex_digit_def lower_char_def Let_def simp del: of_nat_diff)
qed

lemma nibble_join_unat:
  assumes "unat a < 16" "unat b < 16"
  shows "unat (push_bit 4 a OR b :: byte) = 16 * unat a + unat b"
proof -
  have b4: "take_bit 4 b = b"
    using assms(2) by (simp add: word_unat_eq_iff unsigned_take_bit_eq take_bit_nat_eq_self)
  have "bit b n \<Longrightarrow> n < 4" for n
    by (subst (asm) b4 [symmetric]) (simp add: bit_simps)
  then have "push_bit 4 a OR b = push_bit 4 a + b"
    by (intro disjunctive_add [symmetric]) (force simp: bit_simps)
  then show ?thesis using assms
    by (simp add: push_bit_eq_mult unat_word_ariths)
qed

text \<open>A successful decoding is the only one: the input is the encoding of the result, up to case.\<close>

lemma hexDecode_sound: "hexDecodeString s = Inr bs \<Longrightarrow> hexEncode bs = map lower_char s"
proof (induction s arbitrary: bs rule: hexDecodeString.induct)
  case (3 p q s)
  from "3.prems" obtain a b cs where ab: "reverseHexTable p = Some a" "reverseHexTable q = Some b"
    and rest: "hexDecodeString s = Inr cs" and bs: "bs = (push_bit 4 a OR b) # cs"
    by (auto split: option.splits)
  with "3.IH" show ?case
    using reverseHexTable_Some [OF ab(1)] reverseHexTable_Some [OF ab(2)]
    by (simp add: hexEncode_def nibble_join_unat)
qed (auto simp: hexEncode_def split: option.splits)

section \<open>Padded input of the unpadded decoder\<close>

text \<open>The unpadded URL decoder reads the padded encoding of the same bytes, or refuses it; it never reads other bytes.\<close>

lemma same_alphabet:
  "decodeMap RawURLEncoding (digit_char URLEncoding (digit i a b c)) = Some (digit i a b c)"
  "decodeMap RawURLEncoding (CHR ''='') = None"
  using decodeMap_digit [OF b64_ok_encodings(3), of i a b c]
  by (simp_all add: digit_char_def URLEncoding_def RawURLEncoding_def decodeMap_def encodeURL_def)

lemma url_pad: "pad URLEncoding n = replicate n (CHR ''='')" "padChar RawURLEncoding = None"
  by (simp_all add: pad_def URLEncoding_def RawURLEncoding_def)

lemma raw_of_padded:
  "b64Decode RawURLEncoding (b64Encode URLEncoding bs) si [] \<in> insert (Inr bs) (range Inl)"
proof (induction URLEncoding bs arbitrary: si rule: b64Encode.induct)
  case (4 a b c bs)
  then show ?case
    by (fastforce simp: same_alphabet assemble_digits [unfolded One_nat_def] dest: meta_spec [of _ "Suc (Suc (Suc (Suc si)))"])
qed (simp_all add: same_alphabet url_pad newline_def numeral_2_eq_2)

section \<open>Hexadecimal input in either case\<close>

lemma reverseHexTable_lower: "lower_char c = hex_digit n \<Longrightarrow> n < 16 \<Longrightarrow> reverseHexTable c = Some (of_nat n)"
proof -
  assume a: "lower_char c = hex_digit n" "n < 16"
  then have "of_char (lower_char c) = (if n < 10 then 48 + n else 87 + n)"
    by (auto simp: hex_digit_def)
  then have "of_char c = (if n < 10 then 48 + n else 87 + n) \<or> of_char c = 55 + n \<and> 10 \<le> n"
    using a(2) by (auto simp: lower_char_def Let_def split: if_splits)
  then show ?thesis using a(2) by (auto simp: reverseHexTable_def Let_def split: if_splits)
qed

lemma hexDecode_complete: "map lower_char s = hexEncode bs \<Longrightarrow> hexDecodeString s = Inr bs"
proof (induction bs arbitrary: s)
  case (Cons b bs)
  then obtain p q t where s: "s = p # q # t" "map lower_char t = hexEncode bs"
    and pq: "lower_char p = hex_digit (unat b div 16)" "lower_char q = hex_digit (unat b mod 16)"
    by (auto simp: hexEncode_def Cons_eq_map_conv map_eq_Cons_conv)
  have "unat b div 16 < 16" using byte_lt [of b] by (simp add: less_mult_imp_div_less)
  then show ?case
    using Cons.IH [OF s(2)] reverseHexTable_lower [OF pq(1)] reverseHexTable_lower [OF pq(2)] by (simp add: s(1) nibbles_join)
qed (simp add: hexEncode_def)

end
