(* ===== verification/Socket.thy ===== *)
theory Socket
  imports Codec
begin

text \<open>
  The state of a TCP socket (\<open>tcp/socket_base.go\<close>, \<open>tcp/socket_state.go\<close>): the struct
  \<open>socket\<close> as a record, extended by a record of the effects its methods have outside it
  (metric samples pushed, callbacks handed to the event loop, calls on network connections,
  promises settled, goroutines started, pooled buffers taken), and the k6 virtual user
  \<open>vu\<close>, which stands for the code of other modules and is a parameter of every operation.
\<close>

section \<open>Data\<close>

datatype socketState = Opening | Open | Destroyed | Disconnected

fun stateName :: "socketState \<Rightarrow> string" where
  "stateName Opening = ''opening''"
| "stateName Open = ''open''"
| "stateName Destroyed = ''destroyed''"
| "stateName Disconnected = ''disconnected''"

record socketOptions =
  soTags :: strmap

record connectOptions =
  Port :: int64
  Host :: string
  TLS :: bool
  coTags :: strmap

record socketEndpoints =
  remotePort :: int64
  remoteIP :: string
  remoteAddr :: string
  localPort :: int64
  localIP :: string

text \<open>The public fields of k6's \<open>metrics.Metric\<close> and the metrics of the extension (\<open>tcp/metrics.go\<close>).\<close>

datatype metricType = Counter | Trend

record metric =
  mName :: string
  mType :: metricType
  mIsTime :: bool

record tcpMetrics =
  tcpConnecting :: metric
  tcpResolving :: metric
  tcpDuration :: metric
  tcpSockets :: metric
  tcpReads :: metric
  tcpWrites :: metric
  tcpErrors :: metric
  tcpTimeouts :: metric
  tcpPartialWrites :: metric

text \<open>
  A network connection: a TCP connection of the dialer, or a TLS client on top of one. Of a
  TLS configuration only the fields the program reads or writes are kept.
\<close>

record tlsConfig =
  ServerName :: string
  NextProtos :: "string list"

datatype conn = RawConn nat | TLSConn conn tlsConfig

text \<open>
  What \<open>sync.Map\<close> holds for an event: any value, of which only a \<open>sobek.Callable\<close> passes
  the type assertion in \<open>fireAndCleanup\<close>.
\<close>

datatype 'h stored = Callable 'h | NotCallable

record 'h socket =
  conn :: "conn option"
  socketOpts :: socketOptions
  connectOpts :: "connectOptions option"
  handlers :: "string \<Rightarrow> 'h stored option"
  metrics :: tcpMetrics
  connectTime :: time
  endpoints :: socketEndpoints
  totalWritten :: int64
  totalRead :: int64
  state :: socketState
  timeout :: duration
  readBuf :: "byte list"
  destroyOnce :: bool

section \<open>Effects\<close>

text \<open>
  A sample of a metric; its \<open>float64\<close> value is a whole number of milliseconds or a count, far
  below the \<open>2 ^ 53\<close> where such numbers stop being exact.
\<close>

record 'ts sample =
  sMetric :: metric
  sTags :: 'ts
  sTime :: time
  sValue :: int

text \<open>
  An argument of an event: the byte slice of a pooled buffer, by the buffer's identity, or an
  error. It is converted to a JavaScript value when the callback runs.
\<close>

datatype evarg = ArgBytes nat | ArgError goerror

text \<open>
  A callback sent on \<open>callChan\<close>: the closure of \<open>fireAndCleanup\<close> with the variables it
  captures. Its cleanup, where there is one, returns a buffer to the pool.
\<close>

record 'h callback =
  cbEvent :: string
  cbHandler :: 'h
  cbArgs :: "evarg list"
  cbCleanup :: "nat option"

datatype netop =
    OpDial string
  | OpHandshake conn tlsConfig
  | OpSetReadDeadline conn "time option"
  | OpWrite conn "byte list" nat "goerror option"
  | OpRead conn nat
  | OpClose conn

datatype outcome = Resolved | Rejected goerror

record writeOptions =
  Encoding :: string
  woTags :: strmap

datatype goroutine = GoLoop | GoConnect nat | GoWrite nat "byte list" writeOptions | GoRead

record ('h, 'ts) rt = "'h socket" +
  cancelled :: bool
  samples :: "'ts sample list"
  sent :: "'h callback list"
  net :: "netop list"
  settled :: "(nat \<times> outcome) list"
  spawned :: "goroutine list"
  heap :: "nat \<Rightarrow> byte list"
  inUse :: "nat list"
  tick :: nat

text \<open>
  The k6 virtual user and the Go runtime as the socket sees them. What may differ from call
  to call takes the number of effects so far (\<open>tick\<close>), so that nothing is assumed about how
  the answers of two calls are related. \<open>SelectSend\<close> says what becomes of the
  \<open>select\<close> of \<open>fireAndCleanup\<close>: the loop goroutine received the callback, the context of the
  virtual user was done, or neither ever happens (the loop goroutine has ended with the context of
  the socket, and the virtual user runs on), so that the sender waits. \<open>CtxDone\<close> is what \<open>metrics.PushIfNotDone\<close> finds of that context.
  \<open>PoolGet\<close> is the buffer that k6's \<open>BufferPool\<close> hands out while
  the given buffers are taken.
\<close>

datatype selected = Received | VUDone | Waits

record 'ts vu =
  tagWith :: "'ts \<Rightarrow> string \<Rightarrow> string \<Rightarrow> 'ts"
  tagWithMap :: "'ts \<Rightarrow> strmap \<Rightarrow> 'ts"
  CurrentTags :: "nat \<Rightarrow> 'ts"
  Now :: "nat \<Rightarrow> time"
  CtxDone :: "nat \<Rightarrow> bool"
  ResolveAddr :: "nat \<Rightarrow> string \<Rightarrow> (string \<times> int64) result"
  DialContext :: "nat \<Rightarrow> string \<Rightarrow> string \<Rightarrow> conn result"
  TLSConfig :: "tlsConfig option"
  Handshake :: "nat \<Rightarrow> conn \<Rightarrow> goerror option"
  LocalAddr :: "conn \<Rightarrow> (string \<times> int64) option"
  SetReadDeadline :: "nat \<Rightarrow> conn \<Rightarrow> time option \<Rightarrow> goerror option"
  ConnWrite :: "nat \<Rightarrow> conn \<Rightarrow> byte list \<Rightarrow> nat \<times> goerror option"
  SelectSend :: "nat \<Rightarrow> selected"
  PoolGet :: "nat \<Rightarrow> nat list \<Rightarrow> nat"

definition ticked :: "('h, 'ts) rt \<Rightarrow> ('h, 'ts) rt" where
  "ticked s = s\<lparr>tick := Suc (tick s)\<rparr>"

definition netcall :: "netop \<Rightarrow> ('h, 'ts) rt \<Rightarrow> ('h, 'ts) rt" where
  "netcall op s = s\<lparr>net := net s @ [op], tick := Suc (tick s)\<rparr>"

definition settle :: "nat \<Rightarrow> outcome \<Rightarrow> ('h, 'ts) rt \<Rightarrow> ('h, 'ts) rt" where
  "settle p out s = s\<lparr>settled := settled s @ [(p, out)]\<rparr>"

definition go :: "goroutine \<Rightarrow> ('h, 'ts) rt \<Rightarrow> ('h, 'ts) rt" where
  "go g s = s\<lparr>spawned := spawned s @ [g]\<rparr>"

definition bufferPut :: "nat option \<Rightarrow> ('h, 'ts) rt \<Rightarrow> ('h, 'ts) rt" where
  "bufferPut b s = (case b of None \<Rightarrow> s | Some i \<Rightarrow> s\<lparr>inUse := remove1 i (inUse s)\<rparr>)"

section \<open>Construction and the readonly accessors\<close>

definition emptyEndpoints :: socketEndpoints where
  "emptyEndpoints = \<lparr>remotePort = 0, remoteIP = '''', remoteAddr = '''', localPort = 0, localIP = ''''\<rparr>"

definition newSocket :: "tcpMetrics \<Rightarrow> ('h, 'ts) rt" where
  "newSocket m = \<lparr>conn = None, socketOpts = \<lparr>soTags = []\<rparr>, connectOpts = None, handlers = (\<lambda>_. None),
     metrics = m, connectTime = 0, endpoints = emptyEndpoints, totalWritten = 0, totalRead = 0,
     state = Disconnected, timeout = 0, readBuf = replicate 4096 0, destroyOnce = False,
     cancelled = False, samples = [], sent = [], net = [], settled = [], spawned = [],
     heap = (\<lambda>_. []), inUse = [], tick = 0\<rparr>"

definition readyState :: "('h, 'z) socket_scheme \<Rightarrow> string" where
  "readyState s = stateName (state s)"

definition isConnected :: "('h, 'z) socket_scheme \<Rightarrow> bool" where
  "isConnected s \<longleftrightarrow> state s = Open"

definition isReadable :: "('h, 'z) socket_scheme \<Rightarrow> bool" where
  "isReadable s = isConnected s"

definition bytesWritten :: "('h, 'z) socket_scheme \<Rightarrow> int64" where
  "bytesWritten s = totalWritten s"

definition bytesRead :: "('h, 'z) socket_scheme \<Rightarrow> int64" where
  "bytesRead s = totalRead s"

text \<open>The address accessors give \<open>undefined\<close> (\<open>None\<close>) while there is no connection.\<close>

definition localIP_get :: "('h, 'z) socket_scheme \<Rightarrow> string option" where
  "localIP_get s = (case conn s of None \<Rightarrow> None | Some _ \<Rightarrow> Some (localIP (endpoints s)))"

definition localPort_get :: "('h, 'z) socket_scheme \<Rightarrow> int64 option" where
  "localPort_get s = (case conn s of None \<Rightarrow> None | Some _ \<Rightarrow> Some (localPort (endpoints s)))"

definition remoteIP_get :: "('h, 'z) socket_scheme \<Rightarrow> string option" where
  "remoteIP_get s = (case conn s of None \<Rightarrow> None | Some _ \<Rightarrow> Some (remoteIP (endpoints s)))"

definition remotePort_get :: "('h, 'z) socket_scheme \<Rightarrow> int64 option" where
  "remotePort_get s = (case conn s of None \<Rightarrow> None | Some _ \<Rightarrow> Some (remotePort (endpoints s)))"

section \<open>Invariant\<close>

definition events :: "string set" where
  "events = {''connect'', ''data'', ''close'', ''error'', ''timeout''}"

end
