(* ===== verification/Metrics.thy ===== *)
theory Metrics
  imports Socket "HOL-Library.Multiset"
begin

text \<open>
  Metrics and tags (\<open>tcp/metrics.go\<close>, \<open>tcp/socket_metrics.go\<close>): the registered metrics,
  the tag sets of samples, and the functions that push samples. k6's registry and its
  immutable \<open>TagSet\<close> are parameters; \<open>tagset_laws\<close> and \<open>registry_laws\<close> state what their
  documentation says.
\<close>

section \<open>Registration\<close>

text \<open>
  \<open>reg\<close> is \<open>Registry.MustNewMetric\<close>: a name, a type and whether the metric holds times.
\<close>

definition newTCPMetrics :: "(string \<Rightarrow> metricType \<Rightarrow> bool \<Rightarrow> metric) \<Rightarrow> tcpMetrics" where
  "newTCPMetrics reg = \<lparr>
     tcpConnecting = reg ''tcp_socket_connecting'' Trend True,
     tcpResolving = reg ''tcp_socket_resolving'' Trend True,
     tcpDuration = reg ''tcp_socket_duration'' Trend True,
     tcpSockets = reg ''tcp_sockets'' Counter False,
     tcpReads = reg ''tcp_reads'' Counter False,
     tcpWrites = reg ''tcp_writes'' Counter False,
     tcpErrors = reg ''tcp_errors'' Counter False,
     tcpTimeouts = reg ''tcp_timeouts'' Counter False,
     tcpPartialWrites = reg ''tcp_partial_writes'' Counter False\<rparr>"

definition allMetrics :: "tcpMetrics \<Rightarrow> metric list" where
  "allMetrics m = [tcpConnecting m, tcpResolving m, tcpDuration m, tcpSockets m, tcpReads m,
     tcpWrites m, tcpErrors m, tcpTimeouts m, tcpPartialWrites m]"

definition registry_laws :: "(string \<Rightarrow> metricType \<Rightarrow> bool \<Rightarrow> metric) \<Rightarrow> bool" where
  "registry_laws reg \<longleftrightarrow>
     (\<forall>n t b. mName (reg n t b) = n \<and> mType (reg n t b) = t \<and> mIsTime (reg n t b) = b)"

section \<open>Tags\<close>

definition map_get :: "strmap \<Rightarrow> string \<Rightarrow> string" where
  "map_get m k = (case map_of m k of None \<Rightarrow> '''' | Some v \<Rightarrow> v)"

definition addToTagSet :: "'ts vu \<Rightarrow> 'ts \<Rightarrow> strmap \<Rightarrow> 'ts" where
  "addToTagSet v ts tg = foldl (\<lambda>t k. tagWith v t k (map_get tg k)) ts (sort (map fst tg))"

definition currentTags :: "'ts vu \<Rightarrow> ('h, 'ts) rt \<Rightarrow> 'ts" where
  "currentTags v s = CurrentTags v (tick s)"

definition tags :: "'ts vu \<Rightarrow> ('h, 'ts) rt \<Rightarrow> 'ts" where
  "tags v s =
     (let t0 = currentTags v s;
          t1 = tagWith v t0 ''proto'' ''TCP'';
          t2 = addToTagSet v t1 (soTags (socketOpts s));
          t3 = (case connectOpts s of None \<Rightarrow> t2
                | Some co \<Rightarrow> tagWith v (tagWith v (tagWithMap v t2 (coTags co)) ''host'' (Host co))
                               ''port'' (Itoa (sint (Port co))))
      in if remoteIP (endpoints s) \<noteq> [] then tagWith v t3 ''ip'' (remoteIP (endpoints s)) else t3)"

text \<open>
  What the documentation of k6's \<open>TagSet\<close> promises: \<open>With\<close> and \<open>WithTagsFromMap\<close> give a
  set that also has the new tags; \<open>get\<close> reads a tag.
\<close>

definition tagset_laws :: "'ts vu \<Rightarrow> ('ts \<Rightarrow> string \<Rightarrow> string option) \<Rightarrow> bool" where
  "tagset_laws v get \<longleftrightarrow>
     (\<forall>t k x. get (tagWith v t k x) = (get t)(k \<mapsto> x)) \<and>
     (\<forall>t m. get (tagWithMap v t m) = get t ++ map_of m)"

section \<open>Samples\<close>

text \<open>\<open>metrics.PushIfNotDone\<close>: the sample is dropped once the context is done.\<close>

definition pushed :: "'ts vu \<Rightarrow> metric \<Rightarrow> 'ts \<Rightarrow> int \<Rightarrow> nat \<Rightarrow> 'ts sample list" where
  "pushed v m ts x n = (if CtxDone v n then [] else [\<lparr>sMetric = m, sTags = ts, sTime = Now v n, sValue = x\<rparr>])"

definition push :: "'ts vu \<Rightarrow> metric \<Rightarrow> 'ts \<Rightarrow> int \<Rightarrow> ('h, 'ts) rt \<Rightarrow> ('h, 'ts) rt" where
  "push v m ts x s = s\<lparr>samples := samples s @ pushed v m ts x (tick s), tick := Suc (tick s)\<rparr>"

definition addErrorMetrics :: "'ts vu \<Rightarrow> 'ts \<Rightarrow> ('h, 'ts) rt \<Rightarrow> ('h, 'ts) rt" where
  "addErrorMetrics v ts s = push v (tcpErrors (metrics s)) ts 1 s"

definition addCounterMetrics :: "'ts vu \<Rightarrow> metric \<Rightarrow> 'ts \<Rightarrow> ('h, 'ts) rt \<Rightarrow> ('h, 'ts) rt" where
  "addCounterMetrics v m ts s = push v m ts 1 s"

definition addDurationMetrics :: "'ts vu \<Rightarrow> duration \<Rightarrow> metric \<Rightarrow> 'ts \<Rightarrow> ('h, 'ts) rt \<Rightarrow> ('h, 'ts) rt" where
  "addDurationMetrics v d m ts s = push v m ts (Milliseconds d) s"

definition addDurationMetricsFor ::
    "'ts vu \<Rightarrow> metric \<Rightarrow> 'ts \<Rightarrow> (('h, 'ts) rt \<Rightarrow> goerror option \<times> ('h, 'ts) rt) \<Rightarrow>
     ('h, 'ts) rt \<Rightarrow> goerror option \<times> ('h, 'ts) rt" where
  "addDurationMetricsFor v m ts fn s =
     (let start = Now v (tick s);
          (err, s1) = fn (ticked s);
          d = time_Sub (Now v (tick s1)) start
      in (err, addDurationMetrics v d m ts (ticked s1)))"

section \<open>Lemmas\<close>

lemma ticked_simps [simp]:
  "tick (ticked s) = Suc (tick s)" "samples (ticked s) = samples s" "sent (ticked s) = sent s"
  "net (ticked s) = net s" "state (ticked s) = state s" "conn (ticked s) = conn s"
  "handlers (ticked s) = handlers s" "metrics (ticked s) = metrics s"
  by (simp_all add: ticked_def)

text \<open>The result does not depend on the order in which Go ranges over the map.\<close>

lemma addToTagSet_order:
  assumes "mset tg = mset tg'" "distinct (map fst tg)"
  shows "addToTagSet v ts tg = addToTagSet v ts tg'"
proof -
  have ms: "mset (map fst tg) = mset (map fst tg')"
    using assms(1) by (metis mset_map)
  then have "sort (map fst tg) = sort (map fst tg')"
    by (metis properties_for_sort sorted_sort mset_sort)
  moreover have "map_of tg = map_of tg'"
    using assms ms by (metis map_of_inject_set mset_eq_imp_distinct_iff set_mset_mset)
  ultimately show ?thesis by (simp add: addToTagSet_def map_get_def)
qed

lemma foldl_with_get:
  assumes "tagset_laws v get"
  shows "get (foldl (\<lambda>t k. tagWith v t k (f k)) ts ks) k = (if k \<in> set ks then Some (f k) else get ts k)"
  using assms by (induction ks arbitrary: ts) (auto simp: tagset_laws_def)

lemma addToTagSet_get:
  assumes "tagset_laws v get"
  shows "get (addToTagSet v ts tg) = get ts ++ map_of tg"
proof
  fix k
  have "map_of tg k = None \<longleftrightarrow> k \<notin> set (map fst tg)"
    by (simp add: map_of_eq_None_iff)
  then show "get (addToTagSet v ts tg) k = (get ts ++ map_of tg) k"
    unfolding addToTagSet_def foldl_with_get [OF assms]
    by (cases "map_of tg k") (auto simp: map_get_def map_add_def)
qed

text \<open>
  Which source wins for a tag: the resolved address, then port and host, then the tags of
  \<open>connect\<close>, then those of the constructor, then \<open>proto\<close>, then the tags of the virtual user.
\<close>

lemma tags_get:
  assumes "tagset_laws v get" "connectOpts s = Some co"
  shows "get (tags v s) =
    (get (currentTags v s))(''proto'' \<mapsto> ''TCP'') ++ map_of (soTags (socketOpts s)) ++ map_of (coTags co)
    ++ [''host'' \<mapsto> Host co, ''port'' \<mapsto> Itoa (sint (Port co))]
    ++ (if remoteIP (endpoints s) = [] then Map.empty else [''ip'' \<mapsto> remoteIP (endpoints s)])"
  using assms addToTagSet_get [OF assms(1)]
  by (auto simp: tags_def Let_def tagset_laws_def)

text \<open>All the samples pushed between two states carry tags with a property.\<close>

definition tagged :: "('ts \<Rightarrow> bool) \<Rightarrow> ('h, 'ts) rt \<Rightarrow> ('h, 'ts) rt \<Rightarrow> bool" where
  "tagged P s t \<longleftrightarrow> (\<exists>new. samples t = samples s @ new \<and> (\<forall>x \<in> set new. P (sTags x)))"

lemma tagged_same: "samples t = samples s \<Longrightarrow> tagged P s t"
  by (simp add: tagged_def)

lemma tagged_state [simp]: "tagged P s (t\<lparr>state := x\<rparr>) = tagged P s t"
  by (simp add: tagged_def)

lemma tagged_trans: "tagged P s t \<Longrightarrow> tagged P t u \<Longrightarrow> tagged P s u"
  unfolding tagged_def by (metis UnE append.assoc set_append)

lemma tagged_pushed: "samples t = samples s @ pushed v m ts x n \<Longrightarrow> P ts \<Longrightarrow> tagged P s t"
  by (auto simp: tagged_def pushed_def)

lemma tagged_push: "P ts \<Longrightarrow> tagged P s (push v m ts x s)"
  by (rule tagged_pushed) (simp_all add: push_def)

lemma tagged_addDurationMetricsFor:
  assumes "P ts" "samples (snd (fn (ticked s))) = samples s"
  shows "tagged P s (snd (addDurationMetricsFor v m ts fn s))"
  by (rule tagged_pushed [of _ _ v m ts "Milliseconds _"])
    (simp_all add: assms addDurationMetricsFor_def addDurationMetrics_def push_def Let_def case_prod_unfold)

text \<open>The age of a connection in whole milliseconds.\<close>

lemma Milliseconds_Sub:
  assumes "u \<le> t" "t - u < 2 ^ 63"
  shows "Milliseconds (time_Sub t u) = (t - u) div 1000000"
proof -
  have "max (- (2 ^ 63)) (min (2 ^ 63 - 1) (t - u)) = t - u" using assms by simp
  then have "time_Sub t u = word_of_int (t - u)" by (simp only: time_Sub_def)
  moreover have "0 \<le> d \<Longrightarrow> d < 2 ^ 63 \<Longrightarrow> sint (word_of_int d :: int64) = d" for d by (simp add: int_word_sint)
  ultimately have "sint (time_Sub t u) = t - u" using assms by (simp only: diff_ge_0_iff_ge)
  then show ?thesis using assms(1) by (simp add: Milliseconds_def sgn_if)
qed

lemma Milliseconds_max:
  assumes "\<not> t - u < 2 ^ 63"
  shows "Milliseconds (time_Sub t u) = 9223372036854"
proof -
  have "max (- (2 ^ 63)) (min (2 ^ 63 - 1) (t - u)) = 2 ^ 63 - 1" using assms by simp
  then have "time_Sub t u = word_of_int (2 ^ 63 - 1)" by (simp only: time_Sub_def)
  then show ?thesis by (simp add: Milliseconds_def)
qed

lemma Milliseconds_bound: "\<bar>Milliseconds d\<bar> \<le> 9223372036854"
proof -
  have "\<bar>sint d\<bar> \<le> 2 ^ 63" using sint64_range [of d] by linarith
  then have "\<bar>sint d\<bar> div 1000000 \<le> 2 ^ 63 div 1000000" by (rule zdiv_mono1) simp
  then show ?thesis by (auto simp: Milliseconds_def abs_mult sgn_if)
qed

lemma time_Sub_mono: "u \<le> t \<Longrightarrow> 0 \<le> sint (time_Sub t u)"
proof -
  assume "u \<le> t"
  let ?x = "max (- (2 ^ 63)) (min (2 ^ 63 - 1) (t - u))"
  have "sint (word_of_int ?x :: int64) = ?x"
    by (simp add: int_word_sint)
  moreover have "0 \<le> ?x" using \<open>u \<le> t\<close> by simp
  ultimately show ?thesis by (simp add: time_Sub_def)
qed

end
