(* ===== verification/Dispatch.thy ===== *)
theory Dispatch
  imports Metrics "HOL-Library.Sublist"
begin

text \<open>
  Event handlers and event dispatch (\<open>tcp/socket_on.go\<close>): registration, the hand-over of a
  callback to the event loop through the unbuffered \<open>callChan\<close>, and the wrapping of errors.
  Log messages are not modelled.
\<close>

section \<open>Registration\<close>

definition on :: "string \<Rightarrow> 'h \<Rightarrow> ('h, 'ts) rt \<Rightarrow> ('h, 'ts) rt" where
  "on event handler s =
     (if event \<notin> events then s else s\<lparr>handlers := (handlers s)(event \<mapsto> Callable handler)\<rparr>)"

section \<open>Firing\<close>

text \<open>The closure \<open>fireAndCleanup\<close> would send, where a callable handler is stored.\<close>

definition prepareCallback :: "nat option \<Rightarrow> string \<Rightarrow> evarg list \<Rightarrow> ('h, 'ts) rt \<Rightarrow> 'h callback option" where
  "prepareCallback cleanup event args s = (case handlers s event of
       None \<Rightarrow> None
     | Some NotCallable \<Rightarrow> None
     | Some (Callable fn) \<Rightarrow>
         Some \<lparr>cbEvent = event, cbHandler = fn, cbArgs = args, cbCleanup = cleanup\<rparr>)"

definition sendCallback :: "'h callback \<Rightarrow> ('h, 'ts) rt \<Rightarrow> ('h, 'ts) rt" where
  "sendCallback cb s = s\<lparr>sent := sent s @ [cb], tick := Suc (tick s)\<rparr>"

text \<open>
  A sender that nobody listens to stays in the \<open>select\<close>: the call never returns, and its caller
  never gets to what follows.
\<close>

definition fireAndCleanup ::
    "'ts vu \<Rightarrow> nat option \<Rightarrow> string \<Rightarrow> evarg list \<Rightarrow> ('h, 'ts) rt \<Rightarrow> (bool, ('h, 'ts) rt) run" where
  "fireAndCleanup v cleanup event args s = (case prepareCallback cleanup event args s of
       None \<Rightarrow> Returns False (bufferPut cleanup s)
     | Some cb \<Rightarrow> (case SelectSend v (tick s) of
           Received \<Rightarrow> Returns True (sendCallback cb s)
         | VUDone \<Rightarrow> Returns False (bufferPut cleanup (ticked s))
         | Waits \<Rightarrow> Blocks s))"

definition fire :: "'ts vu \<Rightarrow> string \<Rightarrow> evarg list \<Rightarrow> ('h, 'ts) rt \<Rightarrow> (bool, ('h, 'ts) rt) run" where
  "fire v event args s = fireAndCleanup v None event args s"

text \<open>
  The body of the closure, run later on the event loop of the virtual user: the arguments
  become JavaScript values (a byte slice with what its buffer holds at that time), the
  captured handler is called with them, and the deferred cleanup runs.
\<close>

datatype jsarg = JSBytes "byte list" | JSError goerror

fun toValue :: "(nat \<Rightarrow> byte list) \<Rightarrow> evarg \<Rightarrow> jsarg" where
  "toValue h (ArgBytes b) = JSBytes (h b)"
| "toValue h (ArgError e) = JSError e"

definition runCallback :: "'h callback \<Rightarrow> ('h, 'ts) rt \<Rightarrow> ('h \<times> jsarg list) \<times> ('h, 'ts) rt" where
  "runCallback cb s = ((cbHandler cb, map (toValue (heap s)) (cbArgs cb)), bufferPut (cbCleanup cb) s)"

section \<open>Errors\<close>

definition newTCPError :: "goerror \<Rightarrow> string \<Rightarrow> tcp_error" where
  "newTCPError err method = \<lparr>ErrName = ''TCPError'', ErrMethod = method, ErrMessage = Error err\<rparr>"

definition handleError ::
    "'ts vu \<Rightarrow> goerror \<Rightarrow> string \<Rightarrow> 'ts \<Rightarrow> ('h, 'ts) rt \<Rightarrow> (tcp_error option, ('h, 'ts) rt) run" where
  "handleError v err method ts s =
     (let s1 = addErrorMetrics v ts s;
          wrapped = newTCPError err method
      in andThen (fire v ''error'' [ArgError (TCPError wrapped)] s1)
           (\<lambda>ok s2. Returns (if ok then None else Some wrapped) s2))"

definition rejectWithTCPError ::
    "'ts vu \<Rightarrow> nat \<Rightarrow> goerror \<Rightarrow> string \<Rightarrow> 'ts \<Rightarrow> ('h, 'ts) rt \<Rightarrow> (unit, ('h, 'ts) rt) run" where
  "rejectWithTCPError v p err method ts s =
     andThen (handleError v err method ts s) (\<lambda>e s1.
       let tcpErr = (case e of None \<Rightarrow> newTCPError err method | Some e' \<Rightarrow> e')
       in Returns () (settle p (Rejected (TCPError tcpErr)) s1))"

section \<open>Invariant\<close>

text \<open>
  Between two operations a socket is open only with a connection, destroyed only without one,
  never caught half way through connecting, and its handlers are callables of known events.
\<close>

definition sock_inv :: "('h, 'ts) rt \<Rightarrow> bool" where
  "sock_inv s \<longleftrightarrow>
     (state s = Open \<longrightarrow> conn s \<noteq> None) \<and> (state s = Destroyed \<longrightarrow> conn s = None) \<and> state s \<noteq> Opening \<and>
     (\<forall>e. handlers s e \<noteq> None \<longrightarrow> e \<in> events) \<and> (\<forall>e. handlers s e \<noteq> Some NotCallable) \<and>
     (cancelled s \<longleftrightarrow> destroyOnce s)"

text \<open>The part of the state that effects leave alone.\<close>

definition core :: "('h, 'ts) rt \<Rightarrow> 'h socket" where
  "core s = \<lparr>conn = conn s, socketOpts = socketOpts s, connectOpts = connectOpts s, handlers = handlers s,
     metrics = metrics s, connectTime = connectTime s, endpoints = endpoints s,
     totalWritten = totalWritten s, totalRead = totalRead s, state = state s, timeout = timeout s,
     readBuf = readBuf s, destroyOnce = destroyOnce s\<rparr>"

lemma sock_inv_core:
  "core s = core t \<Longrightarrow> cancelled s = cancelled t \<Longrightarrow> sock_inv s = sock_inv t"
  by (simp add: sock_inv_def core_def)

text \<open>
  Everything recorded outside the struct only grows: what was pushed, sent, called, settled
  or started is never taken back, and a destroyed socket stays destroyed once and for all.
\<close>

definition grows :: "('h, 'ts) rt \<Rightarrow> ('h, 'ts) rt \<Rightarrow> bool" where
  "grows s t \<longleftrightarrow> prefix (samples s) (samples t) \<and> prefix (sent s) (sent t) \<and> prefix (net s) (net t) \<and>
     prefix (settled s) (settled t) \<and> prefix (spawned s) (spawned t) \<and> tick s \<le> tick t \<and>
     metrics t = metrics s \<and> (destroyOnce s \<longrightarrow> destroyOnce t)"

lemma grows_refl [simp]: "grows s s"
  by (simp add: grows_def)

lemma grows_trans [trans]: "grows s t \<Longrightarrow> grows t u \<Longrightarrow> grows s u"
  by (auto simp: grows_def intro: prefix_order.trans)

lemma grows_upd [simp]:
  "grows s (t\<lparr>state := x1\<rparr>) = grows s t" "grows s (t\<lparr>conn := x2\<rparr>) = grows s t"
  "grows s (t\<lparr>endpoints := x3\<rparr>) = grows s t" "grows s (t\<lparr>timeout := x4\<rparr>) = grows s t"
  "grows s (t\<lparr>connectOpts := x5\<rparr>) = grows s t" "grows s (t\<lparr>handlers := x6\<rparr>) = grows s t"
  "grows s (t\<lparr>totalRead := x7\<rparr>) = grows s t" "grows s (t\<lparr>totalWritten := x8\<rparr>) = grows s t"
  "grows s (t\<lparr>readBuf := x9\<rparr>) = grows s t" "grows s (t\<lparr>heap := x10\<rparr>) = grows s t"
  "grows s (t\<lparr>inUse := x11\<rparr>) = grows s t" "grows s (t\<lparr>cancelled := x12\<rparr>) = grows s t"
  "grows s (t\<lparr>connectTime := x13\<rparr>) = grows s t"
  by (simp_all add: grows_def)

text \<open>The contract of every operation of a socket.\<close>

locale socket_op =
  fixes op :: "('h, 'ts) rt \<Rightarrow> ('h, 'ts) rt"
  assumes op_inv: "sock_inv s \<Longrightarrow> sock_inv (op s)"
    and op_grows: "grows s (op s)"
begin

lemma iterate_inv: "sock_inv s \<Longrightarrow> sock_inv ((op ^^ n) s)"
  by (induction n) (auto intro: op_inv)

lemma iterate_grows: "grows s ((op ^^ n) s)"
proof (induction n)
  case (Suc n)
  then show ?case using grows_trans [OF _ op_grows] by simp
qed simp

end

lemma socket_op_comp: "socket_op f \<Longrightarrow> socket_op g \<Longrightarrow> socket_op (\<lambda>s. g (f s))"
  unfolding socket_op_def by (blast intro: grows_trans)

text \<open>An effect leaves the struct alone.\<close>

locale effect =
  fixes op :: "('h, 'ts) rt \<Rightarrow> ('h, 'ts) rt"
  assumes core_op: "core (op s) = core s"
    and cancelled_op: "cancelled (op s) = cancelled s"
    and grows_op: "grows s (op s)"
begin

lemma fields_op [simp]:
  "conn (op s) = conn s" "state (op s) = state s" "handlers (op s) = handlers s"
  "metrics (op s) = metrics s" "endpoints (op s) = endpoints s" "connectOpts (op s) = connectOpts s"
  "totalWritten (op s) = totalWritten s" "totalRead (op s) = totalRead s" "timeout (op s) = timeout s"
  "destroyOnce (op s) = destroyOnce s" "socketOpts (op s) = socketOpts s" "connectTime (op s) = connectTime s"
  "readBuf (op s) = readBuf s" "cancelled (op s) = cancelled s"
  using core_op [of s] cancelled_op [of s] by (simp_all add: core_def)

lemma isReadable_op [simp]: "isReadable (op s) = isReadable s"
  by (simp add: isReadable_def isConnected_def)

end

sublocale effect \<subseteq> socket_op
proof unfold_locales
  fix s :: "('h, 'ts) rt"
  show "sock_inv s \<Longrightarrow> sock_inv (op s)"
    using sock_inv_core [OF core_op cancelled_op] by simp
qed (rule grows_op)

text \<open>Operations that may block, by the state they reach.\<close>

lemma socket_op_andThen:
  assumes "socket_op (\<lambda>s. stateOf (f s))" "\<And>x. socket_op (\<lambda>s. stateOf (g x s))"
  shows "socket_op (\<lambda>s. stateOf (andThen (f s) g))"
proof
  fix s :: "('a, 'b) rt"
  show "sock_inv s \<Longrightarrow> sock_inv (stateOf (andThen (f s) g))"
    using socket_op.op_inv [OF assms(1), of s] socket_op.op_inv [OF assms(2)] by (cases "f s") auto
  show "grows s (stateOf (andThen (f s) g))"
    using socket_op.op_grows [OF assms(1), of s] socket_op.op_grows [OF assms(2)] grows_trans by (cases "f s") fastforce+
qed

lemma effect_andThen:
  assumes "effect (\<lambda>s. stateOf (f s))" "\<And>x. effect (\<lambda>s. stateOf (g x s))"
  shows "effect (\<lambda>s. stateOf (andThen (f s) g))"
proof
  fix s :: "('a, 'b) rt"
  show "core (stateOf (andThen (f s) g)) = core s" "cancelled (stateOf (andThen (f s) g)) = cancelled s"
    using effect.core_op [OF assms(1), of s] effect.core_op [OF assms(2)]
      effect.cancelled_op [OF assms(1), of s] effect.cancelled_op [OF assms(2)] by (cases "f s"; simp)+
  show "grows s (stateOf (andThen (f s) g))"
    using effect.grows_op [OF assms(1), of s] effect.grows_op [OF assms(2)] grows_trans by (cases "f s") fastforce+
qed

lemma effect_comp: "effect f \<Longrightarrow> effect g \<Longrightarrow> effect (\<lambda>s. g (f s))"
  unfolding effect_def by (metis grows_trans)

lemma bufferPut_fields [simp]:
  "core (bufferPut b s) = core s" "samples (bufferPut b s) = samples s"
  "sent (bufferPut b s) = sent s" "tick (bufferPut b s) = tick s" "net (bufferPut b s) = net s"
  "settled (bufferPut b s) = settled s" "spawned (bufferPut b s) = spawned s" "heap (bufferPut b s) = heap s"
  by (simp_all add: bufferPut_def core_def split: option.split)

interpretation ticked: effect ticked
  by unfold_locales (simp_all add: ticked_def core_def grows_def)

interpretation netcall: effect "netcall op"
  by unfold_locales (simp_all add: netcall_def core_def grows_def)

interpretation settle: effect "settle p out"
  by unfold_locales (simp_all add: settle_def core_def grows_def)

interpretation go: effect "go g"
  by unfold_locales (simp_all add: go_def core_def grows_def)

interpretation push: effect "push v m ts x"
  by unfold_locales (simp_all add: push_def core_def grows_def)

interpretation bufferPut: effect "bufferPut b"
  by unfold_locales (simp_all add: bufferPut_def core_def split: option.split)

interpretation sendCallback: effect "sendCallback cb"
  by unfold_locales (simp_all add: sendCallback_def core_def grows_def)

interpretation fireAndCleanup: effect "\<lambda>s. stateOf (fireAndCleanup v cleanup event args s)"
  by unfold_locales
    (auto simp: fireAndCleanup_def ticked.core_op sendCallback.core_op sendCallback.grows_op
      intro: grows_trans [OF ticked.grows_op] bufferPut.grows_op split: option.split selected.split)

interpretation fire: effect "\<lambda>s. stateOf (fire v event args s)"
  unfolding fire_def by (rule fireAndCleanup.effect_axioms)

interpretation addErrorMetrics: effect "addErrorMetrics v ts"
  by unfold_locales (simp_all add: addErrorMetrics_def push.core_op push.grows_op)

interpretation addCounterMetrics: effect "addCounterMetrics v m ts"
  by unfold_locales (simp_all add: addCounterMetrics_def push.core_op push.grows_op)

interpretation addDurationMetrics: effect "addDurationMetrics v d m ts"
  by unfold_locales (simp_all add: addDurationMetrics_def push.core_op push.grows_op)

interpretation handleError: effect "\<lambda>s. stateOf (handleError v err method ts s)"
proof -
  have "effect (\<lambda>s. stateOf (fire v ''error'' [ArgError (TCPError (newTCPError err method))] (addErrorMetrics v ts s)))"
    by (rule effect_comp [OF addErrorMetrics.effect_axioms fire.effect_axioms])
  then show "effect (\<lambda>s. stateOf (handleError v err method ts s))"
    by (simp add: handleError_def Let_def)
qed

interpretation rejectWithTCPError: effect "\<lambda>s. stateOf (rejectWithTCPError v p err method ts s)"
  unfolding rejectWithTCPError_def Let_def
  by (rule effect_andThen [OF handleError.effect_axioms]) (simp add: settle.effect_axioms)

section \<open>Functional behaviour\<close>

lemma prepareCallback_unhandled: "handlers s event = None \<Longrightarrow> prepareCallback cl event args s = None"
  by (simp add: prepareCallback_def)

lemma prepareCallback_handled:
  "handlers s event = Some (Callable h) \<Longrightarrow>
   prepareCallback cl event args s = Some \<lparr>cbEvent = event, cbHandler = h, cbArgs = args, cbCleanup = cl\<rparr>"
  by (simp add: prepareCallback_def)

text \<open>The type assertion in \<open>fireAndCleanup\<close> never fails on a socket that keeps its invariant.\<close>

lemma prepareCallback_inv:
  assumes "sock_inv s"
  shows "prepareCallback cl event args s = None \<longleftrightarrow> handlers s event = None"
  using assms by (auto simp: prepareCallback_def sock_inv_def split: option.splits stored.splits)


text \<open>When a call of \<open>fire\<close> waits: there is a handler, and neither case of the \<open>select\<close> is ever ready.\<close>

definition waitsFor :: "'ts vu \<Rightarrow> string \<Rightarrow> ('h, 'ts) rt \<Rightarrow> bool" where
  "waitsFor v event s \<longleftrightarrow> (\<exists>fn. handlers s event = Some (Callable fn)) \<and> SelectSend v (tick s) = Waits"

text \<open>Every send is received, or finds the virtual user done.\<close>

definition attentive :: "'ts vu \<Rightarrow> bool" where
  "attentive v \<longleftrightarrow> (\<forall>n. SelectSend v n \<noteq> Waits)"

lemma attentive_waitsFor [simp]: "attentive v \<Longrightarrow> \<not> waitsFor v event s"
  by (simp add: attentive_def waitsFor_def)

lemma received_attentive: "(\<And>n. SelectSend v n = Received) \<Longrightarrow> attentive v"
  by (simp add: attentive_def)

lemma unhandled_waitsFor [simp]: "handlers s event = None \<Longrightarrow> \<not> waitsFor v event s"
  by (simp add: waitsFor_def)

text \<open>What firing adds to the callbacks handed to the event loop.\<close>

definition fired :: "'ts vu \<Rightarrow> nat option \<Rightarrow> string \<Rightarrow> evarg list \<Rightarrow> ('h, 'ts) rt \<Rightarrow> 'h callback list" where
  "fired v cl event args s = (case prepareCallback cl event args s of
       None \<Rightarrow> [] | Some cb \<Rightarrow> if SelectSend v (tick s) = Received then [cb] else [])"

lemma fireAndCleanup_eq:
  "fireAndCleanup v cl event args s =
     (if waitsFor v event s then Blocks s
      else Returns (fired v cl event args s \<noteq> []) (stateOf (fireAndCleanup v cl event args s)))"
  by (auto simp: fireAndCleanup_def waitsFor_def fired_def prepareCallback_def
      split: option.split stored.split selected.split)

lemma fire_eq:
  "fire v event args s =
     (if waitsFor v event s then Blocks s
      else Returns (fired v None event args s \<noteq> []) (stateOf (fire v event args s)))"
  unfolding fire_def by (rule fireAndCleanup_eq)

text \<open>The two ways a call of \<open>fire\<close> can go.\<close>

lemma fire_cases [case_names waits proceeds]:
  obtains "waitsFor v event s" "fire v event args s = Blocks s"
  | t where "\<not> waitsFor v event s" "fire v event args s = Returns (fired v None event args s \<noteq> []) t"
  using fire_eq [of v event args s] by (meson that)

lemma fire_unhandled [simp]: "handlers s event = None \<Longrightarrow> fire v event args s = Returns False s"
  by (simp add: fire_def fireAndCleanup_def prepareCallback_unhandled bufferPut_def)

lemma fireAndCleanup_effects [simp]:
  "samples (stateOf (fireAndCleanup v cl event args s)) = samples s"
  "net (stateOf (fireAndCleanup v cl event args s)) = net s"
  "settled (stateOf (fireAndCleanup v cl event args s)) = settled s"
  "spawned (stateOf (fireAndCleanup v cl event args s)) = spawned s"
  "heap (stateOf (fireAndCleanup v cl event args s)) = heap s"
  by (simp_all add: fireAndCleanup_def sendCallback_def ticked_def bufferPut_def split: option.split selected.split)

lemma fire_effects [simp]:
  "samples (stateOf (fire v event args s)) = samples s" "net (stateOf (fire v event args s)) = net s"
  "settled (stateOf (fire v event args s)) = settled s" "spawned (stateOf (fire v event args s)) = spawned s"
  "heap (stateOf (fire v event args s)) = heap s" "inUse (stateOf (fire v event args s)) = inUse s"
  by (simp_all add: fire_def)
    (simp add: fireAndCleanup_def sendCallback_def ticked_def bufferPut_def split: option.split selected.split)

lemma sent_fireAndCleanup:
  "sent (stateOf (fireAndCleanup v cl event args s)) = sent s @ fired v cl event args s"
  by (simp add: fireAndCleanup_def fired_def sendCallback_def ticked_def split: option.split selected.split)

lemma sent_fire: "sent (stateOf (fire v event args s)) = sent s @ fired v None event args s"
  by (simp add: fire_def sent_fireAndCleanup)

lemma fired_event: "cb \<in> set (fired v cl event args s) \<Longrightarrow> cbEvent cb = event \<and> cbArgs cb = args \<and> cbCleanup cb = cl"
  by (auto simp: fired_def prepareCallback_def split: option.splits stored.splits if_splits)

lemma addErrorMetrics_fields [simp]:
  "tick (addErrorMetrics v ts s) = Suc (tick s)" "sent (addErrorMetrics v ts s) = sent s"
  "net (addErrorMetrics v ts s) = net s" "settled (addErrorMetrics v ts s) = settled s"
  "spawned (addErrorMetrics v ts s) = spawned s" "heap (addErrorMetrics v ts s) = heap s"
  "inUse (addErrorMetrics v ts s) = inUse s"
  "samples (addErrorMetrics v ts s) = samples s @ pushed v (tcpErrors (metrics s)) ts 1 (tick s)"
  by (simp_all add: addErrorMetrics_def push_def)

text \<open>
  \<open>handleError\<close>: one \<open>tcp_errors\<close> sample, and the wrapped error comes back exactly when no
  \<open>error\<close> handler received it; with a handler and nobody to receive the event it never returns.
\<close>

lemma handleError_eq:
  "handleError v err method ts s =
     (let s1 = addErrorMetrics v ts s; a = [ArgError (TCPError (newTCPError err method))] in
      if waitsFor v ''error'' s1 then Blocks s1
      else Returns (if fired v None ''error'' a s1 \<noteq> [] then None else Some (newTCPError err method))
        (stateOf (fire v ''error'' a s1)))"
  unfolding handleError_def Let_def
  by (subst fire_eq) simp

lemma handleError_state:
  "stateOf (handleError v err method ts s) =
     stateOf (fire v ''error'' [ArgError (TCPError (newTCPError err method))] (addErrorMetrics v ts s))"
  by (simp add: handleError_def Let_def)

lemma rejectWithTCPError_eq:
  "rejectWithTCPError v p err method ts s =
     (let s1 = addErrorMetrics v ts s; a = [ArgError (TCPError (newTCPError err method))] in
      if waitsFor v ''error'' s1 then Blocks s1
      else Returns () (settle p (Rejected (TCPError (newTCPError err method))) (stateOf (fire v ''error'' a s1))))"
  by (simp add: rejectWithTCPError_def handleError_eq Let_def)

text \<open>A call that does not return is blocked in the \<open>select\<close> of an event.\<close>

lemma fireAndCleanup_blocks: "fireAndCleanup v cl event args s = Blocks t \<Longrightarrow> waitsFor v event t"
  by (metis fireAndCleanup_eq run.distinct(1) run.inject(2))

lemma fire_blocks: "fire v event args s = Blocks t \<Longrightarrow> waitsFor v event t"
  unfolding fire_def by (rule fireAndCleanup_blocks)

lemma handleError_blocks: "handleError v err method ts s = Blocks t \<Longrightarrow> waitsFor v ''error'' t"
  by (auto simp: handleError_def andThen_Blocks Let_def intro: fire_blocks)

lemma handleError_effects [simp]:
  "net (stateOf (handleError v err method ts s)) = net s"
  "settled (stateOf (handleError v err method ts s)) = settled s"
  "spawned (stateOf (handleError v err method ts s)) = spawned s"
  "inUse (stateOf (handleError v err method ts s)) = inUse s"
  "heap (stateOf (handleError v err method ts s)) = heap s"
  by (simp_all add: handleError_state)

lemma on_inv: "sock_inv s \<Longrightarrow> sock_inv (on event h s)"
  by (auto simp: sock_inv_def on_def)

interpretation on: socket_op "on event h"
  by unfold_locales (erule on_inv, simp add: on_def)

interpretation runCallback: effect "\<lambda>s. snd (runCallback cb s)"
  by unfold_locales (simp_all add: runCallback_def bufferPut.grows_op)

lemma rejectWithTCPError_effects [simp]:
  "net (stateOf (rejectWithTCPError v p err method ts s)) = net s"
  "spawned (stateOf (rejectWithTCPError v p err method ts s)) = spawned s"
  "samples (stateOf (rejectWithTCPError v p err method ts s)) = samples s @ pushed v (tcpErrors (metrics s)) ts 1 (tick s)"
  by (simp_all add: rejectWithTCPError_eq Let_def settle_def)

end
