(* ===== verification/Connect.thy ===== *)
theory Connect
  imports Dispatch
begin

text \<open>
  Connecting, the idle timeout and teardown (\<open>tcp/socket_connect.go\<close>,
  \<open>tcp/socket_timeout.go\<close>). The JavaScript engine sobek is the parameter \<open>sb\<close>: the type
  it exports a value as and its conversions. The mutex of the socket is left to the theory
  of interleavings; here each method runs on its own.
\<close>

section \<open>JavaScript values\<close>

datatype rtype = T_int64 | T_string | T_map | T_bytes | T_ArrayBuffer | T_other

record 'v sobek =
  ExportType :: "'v \<Rightarrow> rtype"
  ToInteger :: "'v \<Rightarrow> int64"
  ValueString :: "'v \<Rightarrow> string"
  IsUndefined :: "'v \<Rightarrow> bool"
  IsNull :: "'v \<Rightarrow> bool"
  ExportOptions :: "'v \<Rightarrow> connectOptions result"
  ExportString :: "'v \<Rightarrow> string result"
  ExportBytes :: "'v \<Rightarrow> byte list result"
  ExportArrayBuffer :: "'v \<Rightarrow> byte list result"

section \<open>Preparing a connection\<close>

definition defaultHost :: string where
  "defaultHost = ''localhost''"

definition errInvalidType :: goerror where
  "errInvalidType = New ''invalid type''"

definition errNoTLSConfig :: goerror where
  "errNoTLSConfig = New ''TLS requested but no TLS config available''"

definition address :: "connectOptions \<Rightarrow> string" where
  "address co = JoinHostPort (Host co) (Itoa (sint (Port co)))"

text \<open>An absent host argument is \<open>None\<close> (Go's nil).\<close>

definition hostOverride :: "'v sobek \<Rightarrow> 'v option \<Rightarrow> connectOptions \<Rightarrow> connectOptions" where
  "hostOverride sb hostOrEmpty opts = (case hostOrEmpty of
       None \<Rightarrow> opts
     | Some h \<Rightarrow> if \<not> IsUndefined sb h \<and> \<not> IsNull sb h then opts\<lparr>Host := ValueString sb h\<rparr> else opts)"

definition connectPrepare ::
    "'v sobek \<Rightarrow> 'v \<Rightarrow> 'v option \<Rightarrow> ('h, 'ts) rt \<Rightarrow> goerror option \<times> ('h, 'ts) rt" where
  "connectPrepare sb portOrOptions hostOrEmpty s =
     (if ExportType sb portOrOptions = T_int64 \<or> ExportType sb portOrOptions = T_string then
        (None, s\<lparr>connectOpts := Some (hostOverride sb hostOrEmpty
           \<lparr>Port = ToInteger sb portOrOptions, Host = defaultHost, TLS = False, coTags = []\<rparr>)\<rparr>)
      else if ExportType sb portOrOptions = T_map then
        (case ExportOptions sb portOrOptions of
           Inl err \<Rightarrow> (Some err, s)
         | Inr opts \<Rightarrow>
             (None, s\<lparr>connectOpts := Some (hostOverride sb None
                (if Host opts = [] then opts\<lparr>Host := defaultHost\<rparr> else opts))\<rparr>))
      else (Some (Errorf '''' errInvalidType '': expected integer or object''), s))"

section \<open>Resolving and dialing\<close>

definition resolve :: "'ts vu \<Rightarrow> connectOptions \<Rightarrow> ('h, 'ts) rt \<Rightarrow> goerror option \<times> ('h, 'ts) rt" where
  "resolve v co s = (case ResolveAddr v (tick s) (address co) of
       Inl err \<Rightarrow> (Some err, ticked s)
     | Inr (ip, port) \<Rightarrow> (None, (ticked s)\<lparr>endpoints := (endpoints s)\<lparr>remoteIP := ip, remotePort := port,
           remoteAddr := JoinHostPort ip (Itoa (sint (Port co)))\<rparr>\<rparr>))"

definition wrapTLS ::
    "'ts vu \<Rightarrow> connectOptions \<Rightarrow> conn \<Rightarrow> ('h, 'ts) rt \<Rightarrow> conn result \<times> ('h, 'ts) rt" where
  "wrapTLS v co c s = (case TLSConfig v of
       None \<Rightarrow> (Inl errNoTLSConfig, netcall (OpClose c) s)
     | Some cfg \<Rightarrow>
         (let copy = cfg\<lparr>ServerName := (if ServerName cfg = [] then Host co else ServerName cfg),
                NextProtos := [''http/1.1'']\<rparr>;
              tlsConn = TLSConn c copy;
              s1 = netcall (OpHandshake c copy) s
          in case Handshake v (tick s) tlsConn of
               Some err \<Rightarrow> (Inl (Errorf ''TLS handshake failed: '' err ''''), netcall (OpClose c) s1)
             | None \<Rightarrow> (Inr tlsConn, s1)))"

text \<open>The part of \<open>dial\<close> from the established connection on.\<close>

definition dialDone :: "'ts vu \<Rightarrow> conn \<Rightarrow> ('h, 'ts) rt \<Rightarrow> goerror option \<times> ('h, 'ts) rt" where
  "dialDone v c s =
     (let s1 = (case LocalAddr v c of
             None \<Rightarrow> s
           | Some (ip, port) \<Rightarrow> s\<lparr>endpoints := (endpoints s)\<lparr>localIP := ip, localPort := port\<rparr>\<rparr>);
          now = Now v (tick s1);
          s2 = (ticked s1)\<lparr>state := Open, conn := Some c, connectTime := now\<rparr>
      in if 0 < sint (timeout s2)
         then (let dl = Some (time_Add now (timeout s2))
               in (SetReadDeadline v (tick s2) c dl, netcall (OpSetReadDeadline c dl) s2))
         else (None, s2))"

definition dial :: "'ts vu \<Rightarrow> connectOptions \<Rightarrow> ('h, 'ts) rt \<Rightarrow> goerror option \<times> ('h, 'ts) rt" where
  "dial v co s =
     (let addr = remoteAddr (endpoints s); s1 = netcall (OpDial addr) s
      in case DialContext v (tick s) ''tcp'' addr of
           Inl err \<Rightarrow> (Some err, s1)
         | Inr c \<Rightarrow>
             if TLS co then
               (case wrapTLS v co c s1 of
                  (Inl err, s2) \<Rightarrow> (Some err, s2)
                | (Inr tlsConn, s2) \<Rightarrow> dialDone v tlsConn s2)
             else dialDone v c s1)"

section \<open>Connecting\<close>

text \<open>
  The part of \<open>connectExecute\<close> under the mutex: it leaves the socket open, or disconnected
  with the error.
\<close>

definition connectLocked :: "'ts vu \<Rightarrow> connectOptions \<Rightarrow> 'ts \<Rightarrow> ('h, 'ts) rt \<Rightarrow> goerror option \<times> ('h, 'ts) rt" where
  "connectLocked v co ts s =
     (let s0 = s\<lparr>state := Opening\<rparr> in
      case addDurationMetricsFor v (tcpResolving (metrics s0)) ts (resolve v co) s0 of
        (Some err, s1) \<Rightarrow> (Some err, s1\<lparr>state := Disconnected\<rparr>)
      | (None, s1) \<Rightarrow>
          (case addDurationMetricsFor v (tcpConnecting (metrics s1)) ts (dial v co) s1 of
             (Some err, s2) \<Rightarrow> (Some err, s2\<lparr>state := Disconnected\<rparr>)
           | (None, s2) \<Rightarrow> (None, s2)))"

definition connectExecute :: "'ts vu \<Rightarrow> ('h, 'ts) rt \<Rightarrow> (goerror option, ('h, 'ts) rt) run" where
  "connectExecute v s = (case connectOpts s of
       None \<Rightarrow> Returns (Some (Panic ''nil connectOpts'')) s
     | Some co \<Rightarrow>
         (let ts = tags v s in
          case connectLocked v co ts s of
            (Some err, s1) \<Rightarrow> Returns (Some err) s1
          | (None, s1) \<Rightarrow>
              andThen (fire v ''connect'' [] s1) (\<lambda>_ s2.
                let s3 = go GoRead s2
                in Returns None (addCounterMetrics v (tcpSockets (metrics s3)) ts s3))))"

text \<open>\<open>connect\<close> makes the promise \<open>p\<close>; the goroutine it starts is \<open>connectGoroutine\<close>.\<close>

definition connectGoroutine :: "'ts vu \<Rightarrow> nat \<Rightarrow> ('h, 'ts) rt \<Rightarrow> (unit, ('h, 'ts) rt) run" where
  "connectGoroutine v p s = andThen (connectExecute v s) (\<lambda>r s1. case r of
       Some err \<Rightarrow> rejectWithTCPError v p err ''connect'' (tags v s1) s1
     | None \<Rightarrow> Returns () (settle p Resolved s1))"

definition connect ::
    "'ts vu \<Rightarrow> 'v sobek \<Rightarrow> nat \<Rightarrow> 'v \<Rightarrow> 'v option \<Rightarrow> ('h, 'ts) rt \<Rightarrow> (unit, ('h, 'ts) rt) run" where
  "connect v sb p portOrOptions hostOrEmpty s = (case connectPrepare sb portOrOptions hostOrEmpty s of
       (Some err, s1) \<Rightarrow> rejectWithTCPError v p err ''connect'' (tags v s1) s1
     | (None, s1) \<Rightarrow> Returns () (go (GoConnect p) s1))"

section \<open>Timeout\<close>

definition setTimeout :: "'ts vu \<Rightarrow> int64 \<Rightarrow> ('h, 'ts) rt \<Rightarrow> goerror option \<times> ('h, 'ts) rt" where
  "setTimeout v timeoutMs s =
     (let s1 = (if sint timeoutMs \<le> 0 then s\<lparr>timeout := 0\<rparr>
                else s\<lparr>timeout := timeoutMs * Millisecond\<rparr>)
      in case conn s1 of
           None \<Rightarrow> (None, s1)
         | Some c \<Rightarrow>
             (let (deadline, s2) =
                (if 0 < sint (timeout s1) then (Some (time_Add (Now v (tick s1)) (timeout s1)), ticked s1)
                 else (None, s1))
              in (SetReadDeadline v (tick s2) c deadline, netcall (OpSetReadDeadline c deadline) s2)))"

section \<open>Teardown\<close>

text \<open>The part of \<open>destroy\<close> under the mutex; it gives the old connection, its age and the tags.\<close>

definition destroyLocked :: "'ts vu \<Rightarrow> ('h, 'ts) rt \<Rightarrow> (conn option \<times> duration \<times> 'ts) \<times> ('h, 'ts) rt" where
  "destroyLocked v s =
     (let s1 = (ticked s)\<lparr>state := Destroyed, conn := None\<rparr>
      in ((conn s, time_Sub (Now v (tick s)) (connectTime s), tags v s1), s1))"

definition destroyClose :: "'ts vu \<Rightarrow> conn option \<times> duration \<times> 'ts \<Rightarrow> ('h, 'ts) rt \<Rightarrow> ('h, 'ts) rt" where
  "destroyClose v r s = (case r of
       (None, d, ts) \<Rightarrow> s
     | (Some c, d, ts) \<Rightarrow> addDurationMetrics v d (tcpDuration (metrics s)) ts (netcall (OpClose c) s))"

definition destroy :: "'ts vu \<Rightarrow> ('h, 'ts) rt \<Rightarrow> (unit, ('h, 'ts) rt) run" where
  "destroy v s =
     (if destroyOnce s then Returns () s
      else let (r, s1) = destroyLocked v s;
               s2 = destroyClose v r s1
           in andThen (fire v ''close'' [] s2) (\<lambda>_ s3. Returns () (s3\<lparr>cancelled := True, destroyOnce := True\<rparr>)))"

section \<open>What connecting leaves alone\<close>

text \<open>
  Resolving and dialing touch the connection, its endpoints, the lifecycle state and the
  network, and nothing else.
\<close>

definition untouched :: "('h, 'ts) rt \<Rightarrow> ('h, 'ts) rt \<Rightarrow> bool" where
  "untouched s t \<longleftrightarrow> handlers t = handlers s \<and> metrics t = metrics s \<and> destroyOnce t = destroyOnce s \<and>
     cancelled t = cancelled s \<and> connectOpts t = connectOpts s \<and> socketOpts t = socketOpts s \<and>
     timeout t = timeout s \<and> totalRead t = totalRead s \<and> totalWritten t = totalWritten s \<and>
     readBuf t = readBuf s \<and> sent t = sent s \<and> settled t = settled s \<and> spawned t = spawned s \<and>
     heap t = heap s \<and> inUse t = inUse s \<and> prefix (samples s) (samples t) \<and> prefix (net s) (net t) \<and>
     tick s \<le> tick t"

lemma untouched_refl [simp]: "untouched s s"
  by (simp add: untouched_def)

lemma untouched_trans [trans]: "untouched s t \<Longrightarrow> untouched t u \<Longrightarrow> untouched s u"
  by (auto simp: untouched_def intro: prefix_order.trans)

lemma untouched_basic [simp]:
  "untouched s (ticked s)" "untouched s (netcall op s)" "untouched s (push v m ts x s)"
  by (simp_all add: untouched_def ticked_def netcall_def push_def)

lemma untouched_upd [simp]:
  "untouched s (t\<lparr>state := a\<rparr>) = untouched s t" "untouched s (t\<lparr>conn := b\<rparr>) = untouched s t"
  "untouched s (t\<lparr>connectTime := c\<rparr>) = untouched s t" "untouched s (t\<lparr>endpoints := d\<rparr>) = untouched s t"
  "untouched (s\<lparr>state := a\<rparr>) t = untouched s t"
  by (simp_all add: untouched_def)

lemma untouched_grows: "untouched s t \<Longrightarrow> grows s t"
  by (simp add: untouched_def grows_def)

lemma resolve_untouched: "untouched s (snd (resolve v co s))"
  by (auto simp: resolve_def split: sum.split)

lemma wrapTLS_untouched: "untouched s (snd (wrapTLS v co c s))"
  by (simp add: wrapTLS_def Let_def untouched_def netcall_def split: option.split)

lemma dialDone_untouched: "untouched s (snd (dialDone v c s))"
  by (auto simp: dialDone_def Let_def untouched_def ticked_def netcall_def split: option.split)

lemma dial_after: "untouched (netcall (OpDial (remoteAddr (endpoints s))) s) (snd (dial v co s))"
proof -
  let ?s1 = "netcall (OpDial (remoteAddr (endpoints s))) s"
  have "untouched ?s1 (snd (dialDone v c t))" if "untouched ?s1 t" for c t
    using untouched_trans [OF that dialDone_untouched] .
  moreover have "untouched ?s1 (snd (wrapTLS v co c ?s1))" for c
    by (rule wrapTLS_untouched)
  ultimately show ?thesis
    by (auto simp: dial_def Let_def split: sum.splits prod.splits) (metis snd_conv)+
qed

lemma dial_untouched: "untouched s (snd (dial v co s))"
  by (rule untouched_trans [OF untouched_basic(2) dial_after])

lemma addDurationMetricsFor_untouched:
  assumes "\<And>s. untouched s (snd (fn s))"
  shows "untouched s (snd (addDurationMetricsFor v m ts fn s))"
proof -
  have "untouched s (snd (fn (ticked s)))"
    by (rule untouched_trans [OF untouched_basic(1) assms])
  then have "untouched s (ticked (snd (fn (ticked s))))"
    by (rule untouched_trans) simp
  then show ?thesis
    unfolding addDurationMetricsFor_def Let_def case_prod_unfold addDurationMetrics_def
    by (auto intro: untouched_trans)
qed

definition resolved :: "'ts vu \<Rightarrow> connectOptions \<Rightarrow> 'ts \<Rightarrow> ('h, 'ts) rt \<Rightarrow> goerror option \<times> ('h, 'ts) rt" where
  "resolved v co ts s =
     addDurationMetricsFor v (tcpResolving (metrics s)) ts (resolve v co) (s\<lparr>state := Opening\<rparr>)"

definition dialed :: "'ts vu \<Rightarrow> connectOptions \<Rightarrow> 'ts \<Rightarrow> ('h, 'ts) rt \<Rightarrow> goerror option \<times> ('h, 'ts) rt" where
  "dialed v co ts s = addDurationMetricsFor v (tcpConnecting (metrics s)) ts (dial v co) s"

lemma connectLocked_eq:
  "connectLocked v co ts s =
     (let (e1, s1) = resolved v co ts s; (e2, s2) = dialed v co ts s1 in
      if e1 \<noteq> None then (e1, s1\<lparr>state := Disconnected\<rparr>)
      else if e2 \<noteq> None then (e2, s2\<lparr>state := Disconnected\<rparr>)
      else (None, s2))"
  by (auto simp: connectLocked_def resolved_def dialed_def Let_def split: prod.splits option.splits)

lemma resolved_untouched: "untouched s (snd (resolved v co ts s))"
  using addDurationMetricsFor_untouched [OF resolve_untouched, of "s\<lparr>state := Opening\<rparr>"]
  by (simp add: resolved_def)

lemma dialed_untouched: "untouched s (snd (dialed v co ts s))"
  unfolding dialed_def by (rule addDurationMetricsFor_untouched [OF dial_untouched])

lemma connectLocked_untouched: "untouched s (snd (connectLocked v co ts s))"
  using resolved_untouched [of s v co ts] untouched_trans [OF resolved_untouched dialed_untouched, of s v co ts v co ts]
  by (simp add: connectLocked_eq Let_def case_prod_unfold)

section \<open>Success and failure\<close>

lemma dialDone_state:
  "state (snd (dialDone v c s)) = Open" "conn (snd (dialDone v c s)) = Some c"
  by (simp_all add: dialDone_def Let_def split: option.split)

lemma dial_ok:
  "fst (dial v co s) = None \<Longrightarrow> state (snd (dial v co s)) = Open \<and> conn (snd (dial v co s)) \<noteq> None"
  by (auto simp: dial_def Let_def dialDone_state split: sum.splits prod.splits if_splits)

lemma addDurationMetricsFor_fst: "fst (addDurationMetricsFor v m ts fn s) = fst (fn (ticked s))"
  by (simp add: addDurationMetricsFor_def Let_def case_prod_unfold)

lemma addDurationMetricsFor_fields:
  "state (snd (addDurationMetricsFor v m ts fn s)) = state (snd (fn (ticked s)))"
  "conn (snd (addDurationMetricsFor v m ts fn s)) = conn (snd (fn (ticked s)))"
  "endpoints (snd (addDurationMetricsFor v m ts fn s)) = endpoints (snd (fn (ticked s)))"
  "net (snd (addDurationMetricsFor v m ts fn s)) = net (snd (fn (ticked s)))"
  by (simp_all add: addDurationMetricsFor_def Let_def case_prod_unfold)
     (simp add: addDurationMetrics_def push_def)

lemma dialed_ok:
  "fst (dialed v co ts s) = None \<Longrightarrow> state (snd (dialed v co ts s)) = Open \<and> conn (snd (dialed v co ts s)) \<noteq> None"
  using dial_ok [of v co "ticked s"] by (simp add: dialed_def addDurationMetricsFor_fields addDurationMetricsFor_fst)

lemma connectLocked_ok:
  "fst (connectLocked v co ts s) = None \<Longrightarrow>
   state (snd (connectLocked v co ts s)) = Open \<and> conn (snd (connectLocked v co ts s)) \<noteq> None"
  using dialed_ok [of v co ts "snd (resolved v co ts s)"]
  by (auto simp: connectLocked_eq Let_def case_prod_unfold split: if_splits)

lemma connectLocked_err:
  "fst (connectLocked v co ts s) \<noteq> None \<Longrightarrow> state (snd (connectLocked v co ts s)) = Disconnected"
  by (auto simp: connectLocked_eq Let_def case_prod_unfold split: if_splits)

lemma connectLocked_inv: "sock_inv s \<Longrightarrow> sock_inv (snd (connectLocked v co ts s))"
  using connectLocked_untouched [of s v co ts] connectLocked_ok [of v co ts s] connectLocked_err [of v co ts s]
  by (cases "fst (connectLocked v co ts s)") (auto simp: sock_inv_def untouched_def)


text \<open>The goroutine of \<open>connect\<close> from the result of the attempt on.\<close>

lemma connectGoroutine_err:
  assumes "connectOpts s = Some co" "connectLocked v co (tags v s) s = (Some err, s1)"
  shows "connectGoroutine v p s = rejectWithTCPError v p err ''connect'' (tags v s1) s1"
  using assms by (simp add: connectGoroutine_def connectExecute_def)

lemma connectGoroutine_ok:
  assumes "connectOpts s = Some co" "connectLocked v co (tags v s) s = (None, s1)"
  shows "connectGoroutine v p s =
    (if waitsFor v ''connect'' s1 then Blocks s1
     else let s3 = go GoRead (stateOf (fire v ''connect'' [] s1))
          in Returns () (settle p Resolved (addCounterMetrics v (tcpSockets (metrics s3)) (tags v s) s3)))"
  by (rule fire_cases [of v "''connect''" s1 "[]"])
    (simp_all add: assms connectGoroutine_def connectExecute_def Let_def)

lemma connectExecute_inv:
  assumes "sock_inv s"
  shows "sock_inv (stateOf (connectExecute v s))"
proof (cases "connectOpts s")
  case (Some co)
  obtain r s1 where l: "connectLocked v co (tags v s) s = (r, s1)" by fastforce
  have s1: "sock_inv s1" using connectLocked_inv [OF assms, of v co "tags v s"] by (simp add: l)
  have "sock_inv (stateOf (fire v ''connect'' [] s1))" by (rule fire.op_inv [OF s1])
  then show ?thesis
    using s1 Some l by (cases "fire v ''connect'' [] s1")
      (auto simp: connectExecute_def Let_def intro: addCounterMetrics.op_inv go.op_inv split: option.split)
qed (use assms in \<open>simp add: connectExecute_def\<close>)

lemma connectExecute_grows: "grows s (stateOf (connectExecute v s))"
proof (cases "connectOpts s")
  case (Some co)
  let ?l = "connectLocked v co (tags v s) s"
  have l: "grows s (snd ?l)" by (rule untouched_grows [OF connectLocked_untouched])
  have f: "grows s (stateOf (fire v e a (snd ?l)))" for e a
    by (rule grows_trans [OF l fire.grows_op])
  have "grows s (addCounterMetrics v m ts (go g (stateOf (fire v e a (snd ?l)))))" for m ts g e a
    by (rule grows_trans [OF f], rule grows_trans [OF go.grows_op], rule addCounterMetrics.grows_op)
  with Some l f show ?thesis
    by (auto simp: connectExecute_def Let_def stateOf_andThen split: option.split prod.split run.split) (metis run.sel snd_conv)+
qed (simp add: connectExecute_def)

interpretation connectExecute: socket_op "\<lambda>s. stateOf (connectExecute v s)"
  by unfold_locales (rule connectExecute_inv, assumption, rule connectExecute_grows)

lemma connectGoroutine_op: "socket_op (\<lambda>s. stateOf (connectGoroutine v p s))"
  unfolding connectGoroutine_def
proof (rule socket_op_andThen [OF connectExecute.socket_op_axioms])
  fix r :: "goerror option"
  show "socket_op (\<lambda>s. stateOf (case r of Some err \<Rightarrow> rejectWithTCPError v p err ''connect'' (tags v s) s
      | None \<Rightarrow> Returns () (settle p Resolved s)))"
    by (cases r)
      (auto simp: socket_op_def settle.op_inv settle.op_grows rejectWithTCPError.op_inv rejectWithTCPError.op_grows)
qed

interpretation connectGoroutine: socket_op "\<lambda>s. stateOf (connectGoroutine v p s)"
  by (rule connectGoroutine_op)

lemma connectPrepare_cases:
  "snd (connectPrepare sb a h s) = s \<or> (\<exists>co. snd (connectPrepare sb a h s) = s\<lparr>connectOpts := Some co\<rparr>)"
  by (auto simp: connectPrepare_def split: sum.split)

lemma connectPrepare_keeps:
  "sock_inv s \<Longrightarrow> sock_inv (snd (connectPrepare sb a h s))" "grows s (snd (connectPrepare sb a h s))"
  using connectPrepare_cases [of sb a h s] by (auto simp: sock_inv_def)

lemma connect_inv: "sock_inv s \<Longrightarrow> sock_inv (stateOf (connect v sb p a h s))"
  using connectPrepare_keeps(1) [of s sb a h]
  by (auto simp: connect_def intro: rejectWithTCPError.op_inv go.op_inv split: prod.split option.split)

lemma connect_grows: "grows s (stateOf (connect v sb p a h s))"
  using connectPrepare_keeps(2) [of s sb a h]
  by (auto simp: connect_def intro: grows_trans rejectWithTCPError.grows_op go.grows_op
      split: prod.split option.split)

interpretation connect: socket_op "\<lambda>s. stateOf (connect v sb p a h s)"
  by unfold_locales (rule connect_inv, assumption, rule connect_grows)

lemma setTimeout_inv: "sock_inv s \<Longrightarrow> sock_inv (snd (setTimeout v ms s))"
  by (auto simp: setTimeout_def Let_def sock_inv_def split: option.split)

lemma setTimeout_grows: "grows s (snd (setTimeout v ms s))"
  by (auto simp: setTimeout_def Let_def grows_def netcall_def ticked_def split: option.split)

interpretation setTimeout: socket_op "\<lambda>s. snd (setTimeout v ms s)"
  by unfold_locales (rule setTimeout_inv, assumption, rule setTimeout_grows)

section \<open>Teardown\<close>

lemma destroyClose_effect: "effect (destroyClose v r)"
proof -
  obtain c d ts where r: "r = (c, d, ts)" by (cases r)
  show ?thesis
  proof (cases c)
    case None
    then show ?thesis unfolding effect_def by (simp add: r destroyClose_def)
  next
    case (Some c')
    then show ?thesis unfolding effect_def
      by (auto simp: r destroyClose_def addDurationMetrics.core_op netcall.core_op
          intro: grows_trans [OF netcall.grows_op addDurationMetrics.grows_op])
  qed
qed

interpretation destroyClose: effect "destroyClose v r"
  by (rule destroyClose_effect)

lemma destroyLocked_state:
  "state (snd (destroyLocked v s)) = Destroyed" "conn (snd (destroyLocked v s)) = None"
  "handlers (snd (destroyLocked v s)) = handlers s" "sent (snd (destroyLocked v s)) = sent s"
  by (simp_all add: destroyLocked_def Let_def)

text \<open>The socket at the \<open>close\<close> event.\<close>

definition torn :: "'ts vu \<Rightarrow> ('h, 'ts) rt \<Rightarrow> ('h, 'ts) rt" where
  "torn v s = destroyClose v (fst (destroyLocked v s)) (snd (destroyLocked v s))"

lemma torn_fields [simp]:
  "state (torn v s) = Destroyed" "conn (torn v s) = None" "handlers (torn v s) = handlers s" "sent (torn v s) = sent s"
  "cancelled (torn v s) = cancelled s" "destroyOnce (torn v s) = destroyOnce s" "settled (torn v s) = settled s"
  by (simp_all add: torn_def destroyLocked_state)
    (simp_all add: destroyLocked_def Let_def destroyClose_def addDurationMetrics_def push_def netcall_def ticked_def split: option.split)

lemma torn_net: "net (torn v s) = net s @ (case conn s of None \<Rightarrow> [] | Some c \<Rightarrow> [OpClose c])"
  by (simp add: torn_def destroyLocked_def Let_def destroyClose_def addDurationMetrics_def push_def netcall_def split: option.split)

lemma tags_torn [simp]: "tags v (t\<lparr>state := x, conn := y\<rparr>) = tags v t"
  by (simp add: tags_def currentTags_def Let_def)

lemma torn_samples:
  "samples (torn v s) = samples s @ (if conn s = None then [] else
     pushed v (tcpDuration (metrics s)) (tags v (ticked s)) (Milliseconds (time_Sub (Now v (tick s)) (connectTime s))) (Suc (Suc (tick s))))"
  by (simp add: torn_def destroyLocked_def Let_def destroyClose_def addDurationMetrics_def push_def netcall_def split: option.split)

lemma torn_grows: "grows s (torn v s)"
proof -
  have "grows s (snd (destroyLocked v s))" by (simp add: destroyLocked_def Let_def ticked.grows_op)
  then show ?thesis unfolding torn_def by (rule grows_trans) (rule destroyClose.grows_op)
qed

lemma destroy_eq:
  "destroy v s =
     (if destroyOnce s then Returns () s
      else if waitsFor v ''close'' (torn v s) then Blocks (torn v s)
      else Returns () ((stateOf (fire v ''close'' [] (torn v s)))\<lparr>cancelled := True, destroyOnce := True\<rparr>))"
  by (rule fire_cases [of v "''close''" "torn v s" "[]"])
    (simp_all add: destroy_def torn_def [symmetric] Let_def case_prod_unfold)

lemma destroy_inv: "sock_inv s \<Longrightarrow> sock_inv (stateOf (destroy v s))"
  by (auto simp: destroy_eq sock_inv_def)

lemma destroy_grows: "grows s (stateOf (destroy v s))"
proof -
  have "grows s (stateOf (fire v ''close'' [] (torn v s)))"
    by (rule grows_trans [OF torn_grows fire.grows_op])
  then have "grows s ((stateOf (fire v ''close'' [] (torn v s)))\<lparr>cancelled := True, destroyOnce := True\<rparr>)"
    by (simp add: grows_def)
  then show ?thesis using torn_grows [of s v] by (simp add: destroy_eq)
qed

interpretation destroy: socket_op "\<lambda>s. stateOf (destroy v s)"
  by unfold_locales (rule destroy_inv, assumption, rule destroy_grows)

lemma destroy_done: "destroy v s = Returns () t \<Longrightarrow> destroyOnce t \<and> destroy v t = Returns () t"
  by (auto simp: destroy_eq split: if_splits)

lemma destroy_blocks: "destroy v s = Blocks t \<Longrightarrow> waitsFor v ''close'' t"
  by (auto simp: destroy_eq split: if_splits)

lemma destroy_returns: "attentive v \<Longrightarrow> \<exists>t. destroy v s = Returns () t"
  by (simp add: destroy_eq)

lemma destroy_state:
  "\<not> destroyOnce s \<Longrightarrow> state (stateOf (destroy v s)) = Destroyed \<and> conn (stateOf (destroy v s)) = None \<and>
     (cancelled s \<or> \<not> blocked (destroy v s) \<longleftrightarrow> cancelled (stateOf (destroy v s)))"
  by (auto simp: destroy_eq)

section \<open>Traces of a connection attempt\<close>

lemma resolved_fields:
  "fst (resolved v co ts s) = (case ResolveAddr v (Suc (tick s)) (address co) of Inl e \<Rightarrow> Some e | Inr _ \<Rightarrow> None)"
  "net (snd (resolved v co ts s)) = net s" "conn (snd (resolved v co ts s)) = conn s"
  by (simp_all add: resolved_def addDurationMetricsFor_fst addDurationMetricsFor_fields resolve_def split: sum.split prod.split)

lemma resolved_addr:
  "ResolveAddr v (Suc (tick s)) (address co) = Inr (ip, port) \<Longrightarrow>
   remoteAddr (endpoints (snd (resolved v co ts s))) = JoinHostPort ip (Itoa (sint (Port co)))"
  by (simp add: resolved_def addDurationMetricsFor_fields resolve_def)

lemma dial_trace: "\<exists>rest. net (snd (dial v co s)) = net s @ OpDial (remoteAddr (endpoints s)) # rest"
  using dial_after [of s v co] by (auto simp: untouched_def netcall_def prefix_def)

lemma dialed_trace: "\<exists>rest. net (snd (dialed v co ts s)) = net s @ OpDial (remoteAddr (endpoints s)) # rest"
  using dial_trace [of v co "ticked s"] by (simp add: dialed_def addDurationMetricsFor_fields)

text \<open>What a TLS connection attempt does to the network and to the socket.\<close>

definition clientConfig :: "connectOptions \<Rightarrow> tlsConfig \<Rightarrow> tlsConfig" where
  "clientConfig co cfg = \<lparr>ServerName = (if ServerName cfg = [] then Host co else ServerName cfg), NextProtos = [''http/1.1'']\<rparr>"

lemma wrapTLS_none:
  "TLSConfig v = None \<Longrightarrow> wrapTLS v co c s = (Inl errNoTLSConfig, netcall (OpClose c) s)"
  by (simp add: wrapTLS_def)

lemma wrapTLS_some:
  "TLSConfig v = Some cfg \<Longrightarrow> wrapTLS v co c s = (case Handshake v (tick s) (TLSConn c (clientConfig co cfg)) of
     Some err \<Rightarrow> (Inl (Errorf ''TLS handshake failed: '' err ''''),
        netcall (OpClose c) (netcall (OpHandshake c (clientConfig co cfg)) s))
   | None \<Rightarrow> (Inr (TLSConn c (clientConfig co cfg)), netcall (OpHandshake c (clientConfig co cfg)) s))"
proof -
  assume "TLSConfig v = Some cfg"
  moreover have "cfg\<lparr>ServerName := if ServerName cfg = [] then Host co else ServerName cfg, NextProtos := [''http/1.1'']\<rparr> =
      clientConfig co cfg"
    by (cases cfg) (simp add: clientConfig_def)
  ultimately show ?thesis by (simp only: wrapTLS_def Let_def option.case)
qed

section \<open>Tags of the samples of connecting and of teardown\<close>

lemma dial_samples: "samples (snd (dial v co s)) = samples s"
  by (simp add: dial_def dialDone_def wrapTLS_def Let_def netcall_def split: sum.split option.split)

lemma resolve_samples: "samples (snd (resolve v co s)) = samples s"
  by (auto simp: resolve_def split: sum.split)

lemma connectLocked_tagged: "P ts \<Longrightarrow> tagged P s (snd (connectLocked v co ts s))"
proof -
  assume "P ts"
  then have r: "tagged P s (snd (resolved v co ts s))" and d: "tagged P u (snd (dialed v co ts u))" for u
    using tagged_addDurationMetricsFor [where s = "s\<lparr>state := Opening\<rparr>" and fn = "resolve v co"]
      tagged_addDurationMetricsFor [where fn = "dial v co"]
    by (simp_all add: resolved_def dialed_def resolve_samples dial_samples) (simp add: tagged_def)
  show ?thesis
    using r tagged_trans [OF r d] by (simp add: connectLocked_eq Let_def case_prod_unfold)
qed

lemma connectExecute_tagged: "tagged (\<lambda>ts. ts = tags v s) s (stateOf (connectExecute v s))"
proof (cases "connectOpts s")
  case (Some co)
  obtain r s1 where l: "connectLocked v co (tags v s) s = (r, s1)" by fastforce
  have t: "tagged (\<lambda>ts. ts = tags v s) s s1"
    using connectLocked_tagged [of "\<lambda>ts. ts = tags v s" "tags v s" s v co] by (simp add: l)
  have f: "tagged (\<lambda>ts. ts = tags v s) s (stateOf (fire v ''connect'' [] s1))"
    "tagged (\<lambda>ts. ts = tags v s) s (go GoRead (stateOf (fire v ''connect'' [] s1)))"
    by (rule tagged_trans [OF t tagged_same], simp add: go_def)+
  show ?thesis
  proof (cases r)
    case None
    then show ?thesis
      using f(1) tagged_trans [OF f(2) tagged_push] Some l
      by (cases "fire v ''connect'' [] s1") (simp_all add: connectExecute_def Let_def addCounterMetrics_def)
  qed (use t Some l in \<open>simp add: connectExecute_def\<close>)
qed (simp add: connectExecute_def tagged_def)

lemma connectGoroutine_tagged:
  "tagged (\<lambda>ts. ts = tags v s \<or> ts = tags v (stateOf (connectExecute v s))) s (stateOf (connectGoroutine v p s))"
proof -
  let ?P = "\<lambda>ts. ts = tags v s \<or> ts = tags v (stateOf (connectExecute v s))"
  have e: "tagged ?P s (stateOf (connectExecute v s))"
    using connectExecute_tagged [of v s] unfolding tagged_def by blast
  show ?thesis
  proof (cases "connectExecute v s")
    case (Returns r s1)
    have e1: "tagged ?P s s1" using e Returns by simp
    have "tagged ?P s1 (stateOf (rejectWithTCPError v p err ''connect'' (tags v s1) s1))" for err
      by (rule tagged_pushed [OF rejectWithTCPError_effects(3)]) (simp add: Returns)
    then have "tagged ?P s (stateOf (rejectWithTCPError v p err ''connect'' (tags v s1) s1))" for err
      by (rule tagged_trans [OF e1])
    moreover have "tagged ?P s (settle p Resolved s1)"
      by (rule tagged_trans [OF e1 tagged_same]) (simp add: settle_def)
    moreover have "stateOf (connectGoroutine v p s) = (case r of
        Some err \<Rightarrow> stateOf (rejectWithTCPError v p err ''connect'' (tags v s1) s1) | None \<Rightarrow> settle p Resolved s1)"
      by (simp add: connectGoroutine_def Returns split: option.split)
    ultimately show ?thesis by (cases r) (simp_all only: option.case)
  qed (use e in \<open>simp add: connectGoroutine_def\<close>)
qed

lemma destroy_tagged: "tagged (\<lambda>ts. ts = tags v (ticked s)) s (stateOf (destroy v s))"
proof -
  have "tagged (\<lambda>ts. ts = tags v (ticked s)) s (torn v s)"
    by (auto simp: tagged_def torn_samples pushed_def)
  then show ?thesis by (simp add: destroy_eq tagged_def)
qed

section \<open>The range of the timeout\<close>

lemma timeout_product:
  assumes "0 < sint (ms :: int64)" "sint ms \<le> 9223372036854"
  shows "sint (ms * Millisecond) = sint ms * 1000000"
proof -
  have "sint (ms * Millisecond) = signed_take_bit 63 (sint ms * 1000000)"
    by (simp add: Millisecond_def sint_word_ariths)
  also have "\<dots> = sint ms * 1000000"
    using assms by (intro signed_take_bit_int_eq_self) simp_all
  finally show ?thesis .
qed

end
