(* ===== verification/Write.thy ===== *)
theory Write
  imports Connect
begin

text \<open>
  The write path (\<open>tcp/socket_write.go\<close>): turning the argument of \<open>write\<close> into bytes and
  writing them in fragments.
\<close>

section \<open>Decoding the argument\<close>

definition errNoActiveConnection :: goerror where
  "errNoActiveConnection = New ''no active connection''"

definition errUnsupportedEncoding :: goerror where
  "errUnsupportedEncoding = New ''unsupported encoding''"

definition errWrite0Bytes :: goerror where
  "errWrite0Bytes = New ''write returned 0 bytes written''"

definition decodeBase64URLString :: "string \<Rightarrow> byte list result" where
  "decodeBase64URLString s = (case DecodeString RawURLEncoding s of
       Inr data \<Rightarrow> Inr data
     | Inl _ \<Rightarrow> DecodeString URLEncoding s)"

definition decodeString :: "golib \<Rightarrow> string \<Rightarrow> string \<Rightarrow> byte list result" where
  "decodeString G s encoding =
     (let e = ToLower G encoding in
      if e = '''' \<or> e = ''utf8'' \<or> e = ''utf-8'' \<or> e = ''ascii'' then Inr (bytes_of s)
      else if e = ''base64'' then DecodeString StdEncoding s
      else if e = ''base64url'' then decodeBase64URLString s
      else if e = ''hex'' then hexDecodeString s
      else Inl (Errorf '''' errUnsupportedEncoding ('' '' @ Quote G encoding)))"

definition stringOrArrayBuffer :: "golib \<Rightarrow> 'v sobek \<Rightarrow> 'v \<Rightarrow> string \<Rightarrow> byte list result" where
  "stringOrArrayBuffer G sb input encoding = (case ExportType sb input of
       T_string \<Rightarrow> (case ExportString sb input of
           Inl err \<Rightarrow> Inl err
         | Inr str \<Rightarrow> decodeString G str encoding)
     | T_bytes \<Rightarrow> ExportBytes sb input
     | T_ArrayBuffer \<Rightarrow> ExportArrayBuffer sb input
     | _ \<Rightarrow> Inl (Errorf '''' errInvalidType '': String or ArrayBuffer expected''))"

text \<open>Absent options are \<open>None\<close> (nil) and become empty ones, which are returned on errors too.\<close>

definition writePrepare ::
    "golib \<Rightarrow> 'v sobek \<Rightarrow> 'v \<Rightarrow> writeOptions option \<Rightarrow> byte list result \<times> writeOptions" where
  "writePrepare G sb input opts =
     (let opts' = (case opts of None \<Rightarrow> \<lparr>Encoding = '''', woTags = []\<rparr> | Some w \<Rightarrow> w)
      in (stringOrArrayBuffer G sb input (Encoding opts'), opts'))"

section \<open>Writing\<close>

text \<open>
  The loop of \<open>writeExecute\<close>: it gives the number of bytes written, the error it stopped with,
  and the state. A write of no bytes is an error, so each round makes progress.
\<close>

function writeLoop ::
    "'ts vu \<Rightarrow> conn \<Rightarrow> byte list \<Rightarrow> nat \<Rightarrow> ('h, 'ts) rt \<Rightarrow> nat \<times> goerror option \<times> ('h, 'ts) rt" where
  "writeLoop v c data written s =
     (if written < length data then
        (let (n, err) = ConnWrite v (tick s) c (drop written data);
             s1 = netcall (OpWrite c (drop written data) n err) s
         in case err of
              Some e \<Rightarrow> (written, Some (Errorf (''failed to write data after '' @ Itoa (int written) @ '' bytes: '') e ''''), s1)
            | None \<Rightarrow>
                if n = 0 then (written, Some (Errorf '''' errWrite0Bytes ('': after '' @ Itoa (int written) @ '' bytes'')), s1)
                else writeLoop v c data (written + n) (s1\<lparr>totalWritten := totalWritten s1 + of_nat n\<rparr>))
      else (written, None, s))"
  by pat_completeness auto
termination
  by (relation "measure (\<lambda>(v, c, data, written, s). length data - written)") auto

declare writeLoop.simps [simp del]

text \<open>What follows the loop: the metrics of the attempt.\<close>

definition writeMetrics ::
    "'ts vu \<Rightarrow> byte list \<Rightarrow> nat \<Rightarrow> goerror option \<Rightarrow> writeOptions \<Rightarrow> ('h, 'ts) rt \<Rightarrow> ('h, 'ts) rt" where
  "writeMetrics v data written result opts s1 =
     (let s2 = (if result \<noteq> None \<and> 0 < written \<and> written < length data
                then addCounterMetrics v (tcpPartialWrites (metrics s1))
                       (addToTagSet v (currentTags v s1) (woTags opts)) s1
                else s1)
      in addCounterMetrics v (tcpWrites (metrics s2)) (addToTagSet v (currentTags v s2) (woTags opts)) s2)"

definition writeExecute ::
    "'ts vu \<Rightarrow> byte list \<Rightarrow> writeOptions \<Rightarrow> ('h, 'ts) rt \<Rightarrow> goerror option \<times> ('h, 'ts) rt" where
  "writeExecute v data opts s = (case conn s of
       None \<Rightarrow> (Some errNoActiveConnection, s)
     | Some c \<Rightarrow>
         (let (written, result, s1) = writeLoop v c data 0 s
          in (result, writeMetrics v data written result opts s1)))"

definition writeGoroutine :: "'ts vu \<Rightarrow> nat \<Rightarrow> byte list \<Rightarrow> writeOptions \<Rightarrow> ('h, 'ts) rt \<Rightarrow> ('h, 'ts) rt" where
  "writeGoroutine v p data opts s = (case writeExecute v data opts s of
       (Some err, s1) \<Rightarrow> settle p (Rejected err) s1
     | (None, s1) \<Rightarrow> settle p Resolved s1)"

definition socketWrite ::
    "golib \<Rightarrow> 'ts vu \<Rightarrow> 'v sobek \<Rightarrow> nat \<Rightarrow> 'v \<Rightarrow> writeOptions option \<Rightarrow> ('h, 'ts) rt \<Rightarrow> (unit, ('h, 'ts) rt) run" where
  "socketWrite G v sb p data opts s = (case writePrepare G sb data opts of
       (Inl err, opts') \<Rightarrow>
         rejectWithTCPError v p err ''write'' (addToTagSet v (currentTags v s) (woTags opts')) s
     | (Inr dataBytes, opts') \<Rightarrow> Returns () (go (GoWrite p dataBytes opts') s))"

section \<open>Contracts of the connection\<close>

text \<open>
  A connection never claims to have written more than it was given (\<open>writer_bounds\<close>); the
  documented contract of \<open>io.Writer\<close> also demands an error whenever it wrote less.
\<close>

definition writer_bounds :: "'ts vu \<Rightarrow> bool" where
  "writer_bounds v \<longleftrightarrow> (\<forall>t c bs. fst (ConnWrite v t c bs) \<le> length bs)"

definition io_writer :: "'ts vu \<Rightarrow> bool" where
  "io_writer v \<longleftrightarrow> writer_bounds v \<and>
     (\<forall>t c bs. fst (ConnWrite v t c bs) < length bs \<longrightarrow> snd (ConnWrite v t c bs) \<noteq> None)"

text \<open>The bytes that a call of \<open>Write\<close> puts on the wire, whether it then fails or not.\<close>

fun delivered :: "netop \<Rightarrow> byte list" where
  "delivered (OpWrite c bs n err) = take n bs"
| "delivered _ = []"

section \<open>The write loop\<close>

lemma writeLoop_done: "\<not> written < length data \<Longrightarrow> writeLoop v c data written s = (written, None, s)"
  by (simp add: writeLoop.simps)

lemma writeLoop_step:
  assumes "written < length data" "ConnWrite v (tick s) c (drop written data) = (n, err)"
  shows "writeLoop v c data written s =
     (let s1 = netcall (OpWrite c (drop written data) n err) s in
      case err of
        Some e \<Rightarrow> (written, Some (Errorf (''failed to write data after '' @ Itoa (int written) @ '' bytes: '') e ''''), s1)
      | None \<Rightarrow>
          if n = 0 then (written, Some (Errorf '''' errWrite0Bytes ('': after '' @ Itoa (int written) @ '' bytes'')), s1)
          else writeLoop v c data (written + n) (s1\<lparr>totalWritten := totalWritten s1 + of_nat n\<rparr>))"
  using assms by (subst writeLoop.simps) simp

text \<open>The loop changes the counter and calls the connection; nothing else.\<close>

definition write_frame :: "('h, 'ts) rt \<Rightarrow> ('h, 'ts) rt \<Rightarrow> bool" where
  "write_frame s t \<longleftrightarrow> (\<exists>w ops k. t = s\<lparr>totalWritten := w, net := net s @ ops, tick := tick s + k\<rparr>)"

lemma write_frame_refl: "write_frame s s"
  unfolding write_frame_def
  by (rule exI [of _ "totalWritten s"], rule exI [of _ "[]"], rule exI [of _ 0]) simp

lemma write_frame_trans: "write_frame s t \<Longrightarrow> write_frame t u \<Longrightarrow> write_frame s u"
  unfolding write_frame_def by (auto simp: add.assoc) blast

lemma write_frame_netcall: "write_frame s (netcall op s)"
  unfolding write_frame_def netcall_def
  by (rule exI [of _ "totalWritten s"], rule exI [of _ "[op]"], rule exI [of _ 1]) simp

lemma write_frame_total: "write_frame s (s\<lparr>totalWritten := w\<rparr>)"
  unfolding write_frame_def by (rule exI [of _ w], rule exI [of _ "[]"], rule exI [of _ 0]) simp

text \<open>One round of the loop, and induction over its rounds.\<close>

definition wrote :: "conn \<Rightarrow> byte list \<Rightarrow> nat \<Rightarrow> nat \<Rightarrow> goerror option \<Rightarrow> ('h, 'ts) rt \<Rightarrow> ('h, 'ts) rt" where
  "wrote c data written n err s = netcall (OpWrite c (drop written data) n err) s"

lemma writeLoop_rule [case_names finished err zero step]:
  assumes finished: "\<And>k s. length data \<le> k \<Longrightarrow> P k s (k, None, s)"
    and err: "\<And>k s n e. k < length data \<Longrightarrow> ConnWrite v (tick s) c (drop k data) = (n, Some e) \<Longrightarrow>
      P k s (k, Some (Errorf (''failed to write data after '' @ Itoa (int k) @ '' bytes: '') e ''''), wrote c data k n (Some e) s)"
    and zero: "\<And>k s. k < length data \<Longrightarrow> ConnWrite v (tick s) c (drop k data) = (0, None) \<Longrightarrow>
      P k s (k, Some (Errorf '''' errWrite0Bytes ('': after '' @ Itoa (int k) @ '' bytes'')), wrote c data k 0 None s)"
    and step: "\<And>k s n r. k < length data \<Longrightarrow> ConnWrite v (tick s) c (drop k data) = (n, None) \<Longrightarrow> n \<noteq> 0 \<Longrightarrow>
      P (k + n) ((wrote c data k n None s)\<lparr>totalWritten := totalWritten s + of_nat n\<rparr>) r \<Longrightarrow> P k s r"
  shows "P k s (writeLoop v c data k s)"
proof (induction "length data - k" arbitrary: k s rule: less_induct)
  case less
  show ?case
  proof (cases "k < length data")
    case True
    obtain n e where w: "ConnWrite v (tick s) c (drop k data) = (n, e)" by fastforce
    show ?thesis
    proof (cases e)
      case None
      show ?thesis
      proof (cases "n = 0")
        case True
        with zero [OF \<open>k < length data\<close>] w None show ?thesis
          by (simp add: writeLoop_step [OF \<open>k < length data\<close> w] wrote_def)
      next
        case False
        let ?s = "(wrote c data k n None s)\<lparr>totalWritten := totalWritten s + of_nat n\<rparr>"
        have "P k s (writeLoop v c data (k + n) ?s)"
          using \<open>k < length data\<close> w None False by (intro step [OF _ _ _ less]) auto
        then show ?thesis
          using None False by (simp add: writeLoop_step [OF \<open>k < length data\<close> w] wrote_def)
      qed
    next
      case (Some e')
      with err [OF True] w show ?thesis by (simp add: writeLoop_step [OF True w] wrote_def)
    qed
  next
    case False
    then show ?thesis using finished by (simp add: writeLoop_done)
  qed
qed

lemma writeLoop_frame: "write_frame s (snd (snd (writeLoop v c data k s)))"
proof (induction rule: writeLoop_rule [where P = "\<lambda>k s r. write_frame s (snd (snd r))"])
  case (step k s n r)
  have "write_frame s ((wrote c data k n None s)\<lparr>totalWritten := totalWritten s + of_nat n\<rparr>)"
    unfolding wrote_def by (rule write_frame_trans [OF write_frame_netcall write_frame_total])
  then show ?case using step.IH(3) by (rule write_frame_trans)
qed (simp_all add: wrote_def write_frame_refl write_frame_netcall)

text \<open>
  The loop counts a prefix of the data and reports an error exactly when this is not the whole. On
  the wire is that prefix, and after it what a call that failed had written before its error.
\<close>

definition uncounted :: "netop list \<Rightarrow> nat \<Rightarrow> bool" where
  "uncounted ops m \<longleftrightarrow> (\<exists>c bs e. ops \<noteq> [] \<and> last ops = OpWrite c bs m (Some e))"

lemma uncounted_Cons: "uncounted ops m \<Longrightarrow> uncounted (op # ops) m"
  by (auto simp: uncounted_def)

definition write_spec :: "byte list \<Rightarrow> nat \<Rightarrow> ('h, 'ts) rt \<Rightarrow> nat \<times> goerror option \<times> ('h, 'ts) rt \<Rightarrow> bool" where
  "write_spec data k s r \<longleftrightarrow> (case r of (w, err, t) \<Rightarrow>
     k \<le> w \<and> w \<le> length data \<and> (err = None \<longleftrightarrow> w = length data) \<and>
     totalWritten t = totalWritten s + of_nat (w - k) \<and>
     (\<exists>ops m. net t = net s @ ops \<and> concat (map delivered ops) = take (w - k + m) (drop k data) \<and>
        w + m \<le> length data \<and> (m = 0 \<or> err \<noteq> None \<and> uncounted ops m)))"

lemma write_specE:
  assumes "write_spec data k s (w, err, t)"
  obtains ops m where "k \<le> w" "w \<le> length data" "(err = None) = (w = length data)"
    "totalWritten t = totalWritten s + of_nat (w - k)" "net t = net s @ ops"
    "concat (map delivered ops) = take (w - k + m) (drop k data)" "w + m \<le> length data"
    "m = 0 \<or> err \<noteq> None \<and> uncounted ops m"
  using assms unfolding write_spec_def prod.case by blast

lemma writeLoop_spec:
  assumes "writer_bounds v" "k \<le> length data"
  shows "write_spec data k s (writeLoop v c data k s)"
proof -
  have bound: "ConnWrite v t c (drop j data) = (n, e) \<Longrightarrow> n \<le> length data - j" for t j n e
    using assms(1) by (metis writer_bounds_def fst_conv length_drop)
  have "k \<le> length data \<longrightarrow> write_spec data k s (writeLoop v c data k s)"
  proof (rule writeLoop_rule [where P = "\<lambda>k s r. k \<le> length data \<longrightarrow> write_spec data k s r"], goal_cases)
    case (2 k s n e)
    then show ?case
      using bound [OF 2(2)]
      by (auto simp: write_spec_def wrote_def netcall_def uncounted_def intro!: exI [of _ n])
  next
    case (4 k s n r)
    note n = bound [OF 4(2)]
    obtain w err t where r: "r = (w, err, t)" by (cases r)
    let ?s1 = "(wrote c data k n None s)\<lparr>totalWritten := totalWritten s + of_nat n\<rparr>"
    have "write_spec data (k + n) ?s1 (w, err, t)" using 4 n by (simp add: r)
    then obtain ops m where w: "k + n \<le> w" "w \<le> length data" "(err = None) = (w = length data)"
      and tot: "totalWritten t = totalWritten ?s1 + of_nat (w - (k + n))" and net: "net t = net ?s1 @ ops"
      and ops: "concat (map delivered ops) = take (w - (k + n) + m) (drop (k + n) data)" "w + m \<le> length data"
        "m = 0 \<or> err \<noteq> None \<and> uncounted ops m"
      by (rule write_specE)
    have eq: "w - k = n + (w - (k + n))" using w(1) by simp
    have "take n (drop k data) @ take (w - (k + n) + m) (drop (k + n) data) = take (w - k + m) (drop k data)"
      using take_chunks [of n "drop k data" "w - (k + n) + m"] eq by (simp add: add.commute add.left_commute)
    moreover have "of_nat n + of_nat (w - (k + n)) = (of_nat (w - k) :: int64)"
      unfolding eq by simp
    ultimately show ?case
      unfolding r write_spec_def prod.case using w tot net ops uncounted_Cons [of ops m]
      by (intro impI conjI exI [of _ "OpWrite c (drop k data) n None # ops"] exI [of _ m])
        (simp_all add: wrote_def netcall_def add.assoc del: of_nat_diff, blast+)
  qed (auto simp: write_spec_def wrote_def netcall_def)
  with assms(2) show ?thesis by blast
qed

lemma writeLoop_ops:
  "\<exists>ops. net (snd (snd (writeLoop v c data k s))) = net s @ ops \<and> (\<forall>op \<in> set ops. \<exists>bs n err. op = OpWrite c bs n err)"
proof (induction rule: writeLoop_rule [where P = "\<lambda>k s r. \<exists>ops. net (snd (snd r)) = net s @ ops \<and>
    (\<forall>op \<in> set ops. \<exists>bs n err. op = OpWrite c bs n err)"])
  case (step k s n r)
  then obtain ops where "net (snd (snd r)) = net s @ OpWrite c (drop k data) n None # ops"
      "\<forall>op \<in> set ops. \<exists>bs n err. op = OpWrite c bs n err"
    by (auto simp: wrote_def netcall_def)
  then show ?case by (intro exI [of _ "OpWrite c (drop k data) n None # ops"]) simp
qed (simp_all add: wrote_def netcall_def)

text \<open>
  A connection that keeps the contract of \<open>io.Writer\<close> is called once: it takes everything, or
  reports an error, in which case nothing is counted.
\<close>

lemma writeLoop_io_writer:
  assumes io: "io_writer v" and ne: "data \<noteq> []" and w: "ConnWrite v (tick s) c data = (n, err)"
  shows "writeLoop v c data 0 s = (case err of
      Some e \<Rightarrow> (0, Some (Errorf ''failed to write data after 0 bytes: '' e ''''), wrote c data 0 n (Some e) s)
    | None \<Rightarrow> (length data, None,
        (wrote c data 0 n None s)\<lparr>totalWritten := totalWritten s + of_nat (length data)\<rparr>))"
proof -
  have z: "Itoa 0 = ''0''" by (simp add: Itoa_def itoa_nat.simps char_of_eq_iff)
  have "n = length data" if "err = None"
    using io w that unfolding io_writer_def writer_bounds_def by (metis fst_conv snd_conv le_neq_implies_less)
  then show ?thesis
    using ne w by (auto simp: writeLoop_step [of 0 data v s c n err] writeLoop_done wrote_def z split: option.split)
qed

section \<open>Writing as an operation\<close>

lemma write_frame_keeps: "write_frame s t \<Longrightarrow> grows s t" "write_frame s t \<Longrightarrow> sock_inv s \<Longrightarrow> sock_inv t"
  by (auto simp: write_frame_def grows_def sock_inv_def)

lemma write_frame_fields:
  assumes "write_frame s t"
  shows "samples t = samples s" "sent t = sent s" "metrics t = metrics s" "state t = state s" "conn t = conn s"
    "settled t = settled s" "spawned t = spawned s" "connectOpts t = connectOpts s" "socketOpts t = socketOpts s"
  using assms by (auto simp: write_frame_def)

lemma writeMetrics_effect: "effect (writeMetrics v data k r opts)"
  unfolding effect_def writeMetrics_def Let_def
  by (auto simp: addCounterMetrics.core_op addCounterMetrics.grows_op
      intro: grows_trans [OF addCounterMetrics.grows_op addCounterMetrics.grows_op])

interpretation writeMetrics: effect "writeMetrics v data k r opts"
  by (rule writeMetrics_effect)

lemma writeExecute_tagged:
  "tagged (\<lambda>ts. \<exists>n. ts = addToTagSet v (CurrentTags v n) (woTags opts)) s (snd (writeExecute v data opts s))"
proof (cases "conn s")
  case (Some c)
  let ?P = "\<lambda>ts. \<exists>n. ts = addToTagSet v (CurrentTags v n) (woTags opts)"
  let ?t = "snd (snd (writeLoop v c data 0 s))"
  have c: "tagged ?P u (addCounterMetrics v m (addToTagSet v (currentTags v u) (woTags opts)) u)" for u m
    by (auto simp: addCounterMetrics_def currentTags_def intro: tagged_push)
  have "tagged ?P s ?t" by (rule tagged_same) (rule write_frame_fields(1) [OF writeLoop_frame])
  then show ?thesis
    using Some c tagged_trans by (simp add: writeExecute_def writeMetrics_def Let_def case_prod_unfold) blast
qed (simp add: writeExecute_def tagged_def)

lemma writeExecute_inv: "sock_inv s \<Longrightarrow> sock_inv (snd (writeExecute v data opts s))"
  by (cases "conn s")
    (auto simp: writeExecute_def Let_def case_prod_unfold
      intro!: writeMetrics.op_inv write_frame_keeps(2) [OF writeLoop_frame])

lemma writeExecute_grows: "grows s (snd (writeExecute v data opts s))"
  by (cases "conn s")
    (auto simp: writeExecute_def Let_def case_prod_unfold
      intro: grows_trans [OF write_frame_keeps(1) [OF writeLoop_frame] writeMetrics.grows_op])

lemma writeGoroutine_inv: "sock_inv s \<Longrightarrow> sock_inv (writeGoroutine v p data opts s)"
  using writeExecute_inv [of s v data opts]
  by (auto simp: writeGoroutine_def intro: settle.op_inv split: prod.split option.split)

lemma writeGoroutine_grows: "grows s (writeGoroutine v p data opts s)"
  using writeExecute_grows [of s v data opts]
  by (auto simp: writeGoroutine_def intro: grows_trans settle.grows_op split: prod.split option.split)

interpretation writeGoroutine: socket_op "\<lambda>s. writeGoroutine v p data opts s"
  by unfold_locales (rule writeGoroutine_inv, assumption, rule writeGoroutine_grows)

lemma socketWrite_inv: "sock_inv s \<Longrightarrow> sock_inv (stateOf (socketWrite G v sb p data opts s))"
  by (auto simp: socketWrite_def intro: rejectWithTCPError.op_inv go.op_inv split: prod.split sum.split)

lemma socketWrite_grows: "grows s (stateOf (socketWrite G v sb p data opts s))"
  by (auto simp: socketWrite_def intro: rejectWithTCPError.grows_op go.grows_op split: prod.split sum.split)

interpretation socketWrite: socket_op "\<lambda>s. stateOf (socketWrite G v sb p data opts s)"
  by unfold_locales (rule socketWrite_inv, assumption, rule socketWrite_grows)

section \<open>What the metrics of a write leave alone\<close>

lemma writeMetrics_net [simp]: "net (writeMetrics v data k r opts s) = net s"
  by (simp add: writeMetrics_def Let_def addCounterMetrics_def push_def)

end
