(* ===== verification/Read.thy ===== *)
theory Read
  imports Write
begin

text \<open>
  The read path (\<open>tcp/socket_read.go\<close>). What the network delivers is a script: one item for
  each call of \<open>conn.Read\<close>, with the bytes and the error it returns and with what other
  goroutines do to the socket while this one is blocked, in the read itself (\<open>during\<close>) or
  in handing over the \<open>data\<close> event (\<open>after\<close>).
\<close>

record ('h, 'ts) readItem =
  during :: "('h, 'ts) rt \<Rightarrow> ('h, 'ts) rt"
  rBytes :: "byte list"
  rErr :: "goerror option"
  after :: "('h, 'ts) rt \<Rightarrow> ('h, 'ts) rt"

text \<open>A failure to set the deadline is only logged.\<close>

definition readBefore :: "'ts vu \<Rightarrow> conn \<Rightarrow> duration \<Rightarrow> ('h, 'ts) rt \<Rightarrow> ('h, 'ts) rt" where
  "readBefore v c tmo s =
     (if 0 < sint tmo
      then netcall (OpSetReadDeadline c (Some (time_Add (Now v (tick s)) tmo))) (ticked s)
      else s)"

definition bufferGet :: "'ts vu \<Rightarrow> ('h, 'ts) rt \<Rightarrow> nat \<times> ('h, 'ts) rt" where
  "bufferGet v s =
     (let b = PoolGet v (tick s) (inUse s) in (b, (ticked s)\<lparr>inUse := b # inUse s\<rparr>))"

text \<open>From the return of \<open>conn.Read\<close> with \<open>bs\<close> to the end of the \<open>n > 0\<close> branch.\<close>

definition readData :: "'ts vu \<Rightarrow> conn \<Rightarrow> byte list \<Rightarrow> ('h, 'ts) rt \<Rightarrow> (unit, ('h, 'ts) rt) run" where
  "readData v c bs s =
     (let n = length bs;
          s0 = (netcall (OpRead c n) s)\<lparr>readBuf := bs @ drop n (readBuf s)\<rparr>
      in if 0 < n then
           (let s1 = addCounterMetrics v (tcpReads (metrics s0)) (currentTags v s0) s0;
                s2 = s1\<lparr>totalRead := totalRead s1 + of_nat n\<rparr>;
                (buf, s3) = bufferGet v s2;
                s4 = s3\<lparr>heap := (heap s3)(buf := take n (readBuf s3))\<rparr>
            in andThen (fireAndCleanup v (Some buf) ''data'' [ArgBytes buf] s4) (\<lambda>_ s5. Returns () s5))
         else Returns () s0)"

text \<open>From the check whether another goroutine closed the socket on.\<close>

definition readTail :: "'ts vu \<Rightarrow> goerror option \<Rightarrow> ('h, 'ts) rt \<Rightarrow> (bool, ('h, 'ts) rt) run" where
  "readTail v err s =
     (if \<not> isReadable s then Returns False s
      else case err of
        None \<Rightarrow> Returns True s
      | Some e \<Rightarrow>
          if errors_Is e EOF then Returns False s
          else if is_timeout e then andThen (fire v ''timeout'' [] s) (\<lambda>_ s1. Returns True s1)
          else andThen (handleError v e ''read'' (currentTags v s) s) (\<lambda>_ s1. Returns False s1))"

definition readLoopStep ::
    "'ts vu \<Rightarrow> conn \<Rightarrow> duration \<Rightarrow> ('h, 'ts) readItem \<Rightarrow> ('h, 'ts) rt \<Rightarrow> (bool, ('h, 'ts) rt) run" where
  "readLoopStep v c tmo i s =
     andThen (readData v c (rBytes i) (during i (readBefore v c tmo s))) (\<lambda>_ s1. readTail v (rErr i) (after i s1))"

text \<open>
  The loop of \<open>read\<close>. Where it returns, the flag tells whether it ended; if not, the script is used
  up and the goroutine is blocked in \<open>conn.Read\<close>. A loop that does not return is blocked in the
  \<open>select\<close> of an event.
\<close>

fun readLoop :: "'ts vu \<Rightarrow> ('h, 'ts) readItem list \<Rightarrow> ('h, 'ts) rt \<Rightarrow> (bool, ('h, 'ts) rt) run" where
  "readLoop v [] s = Returns (\<not> (isReadable s \<and> conn s \<noteq> None)) s"
| "readLoop v (i # items) s =
     (if \<not> isReadable s then Returns True s
      else case conn s of
        None \<Rightarrow> Returns True s
      | Some c \<Rightarrow> andThen (readLoopStep v c (timeout s) i s)
          (\<lambda>continue s1. if continue then readLoop v items s1 else Returns True s1))"

text \<open>The deferred \<open>destroy\<close> runs when the loop ends.\<close>

definition read :: "'ts vu \<Rightarrow> ('h, 'ts) readItem list \<Rightarrow> ('h, 'ts) rt \<Rightarrow> (bool, ('h, 'ts) rt) run" where
  "read v items s = andThen (readLoop v items s) (\<lambda>ended s1.
     if ended then andThen (destroy v s1) (\<lambda>_ s2. Returns True s2) else Returns False s1)"

section \<open>Reading as an operation\<close>

text \<open>While this goroutine is blocked the others keep the contract of socket operations.\<close>

definition polite :: "('h, 'ts) readItem \<Rightarrow> bool" where
  "polite i \<longleftrightarrow> socket_op (during i) \<and> socket_op (after i)"

lemma readBefore_effect: "effect (readBefore v c tmo)"
  unfolding effect_def readBefore_def
  by (auto simp: netcall.core_op ticked.core_op intro: grows_trans [OF ticked.grows_op netcall.grows_op])

interpretation readBefore: effect "readBefore v c tmo"
  by (rule readBefore_effect)

definition gotBytes :: "'ts vu \<Rightarrow> conn \<Rightarrow> byte list \<Rightarrow> ('h, 'ts) rt \<Rightarrow> ('h, 'ts) rt" where
  "gotBytes v c bs s =
     (let s0 = (netcall (OpRead c (length bs)) s)\<lparr>readBuf := bs @ drop (length bs) (readBuf s)\<rparr>;
          s1 = addCounterMetrics v (tcpReads (metrics s0)) (currentTags v s0) s0
      in s1\<lparr>totalRead := totalRead s1 + of_nat (length bs)\<rparr>)"

definition bufferFilled :: "'ts vu \<Rightarrow> byte list \<Rightarrow> ('h, 'ts) rt \<Rightarrow> ('h, 'ts) rt" where
  "bufferFilled v bs s = (let b = PoolGet v (tick s) (inUse s)
     in (ticked s)\<lparr>inUse := b # inUse s, heap := (heap s)(b := bs)\<rparr>)"

lemma readData_eq:
  "readData v c bs s =
     (if bs = [] then Returns () ((netcall (OpRead c 0) s)\<lparr>readBuf := readBuf s\<rparr>)
      else let s2 = gotBytes v c bs s; b = PoolGet v (tick s2) (inUse s2)
           in andThen (fireAndCleanup v (Some b) ''data'' [ArgBytes b] (bufferFilled v bs s2)) (\<lambda>_ s. Returns () s))"
  by (simp add: readData_def gotBytes_def bufferFilled_def bufferGet_def Let_def ticked_def)

lemma readData_state:
  "stateOf (readData v c bs s) =
     (if bs = [] then (netcall (OpRead c 0) s)\<lparr>readBuf := readBuf s\<rparr>
      else let s2 = gotBytes v c bs s; b = PoolGet v (tick s2) (inUse s2)
           in stateOf (fireAndCleanup v (Some b) ''data'' [ArgBytes b] (bufferFilled v bs s2)))"
  by (simp add: readData_eq Let_def)

lemma gotBytes_fields [simp]:
  "state (gotBytes v c bs s) = state s" "conn (gotBytes v c bs s) = conn s" "handlers (gotBytes v c bs s) = handlers s"
  "cancelled (gotBytes v c bs s) = cancelled s" "destroyOnce (gotBytes v c bs s) = destroyOnce s"
  "sent (gotBytes v c bs s) = sent s" "heap (gotBytes v c bs s) = heap s" "inUse (gotBytes v c bs s) = inUse s"
  "metrics (gotBytes v c bs s) = metrics s" "timeout (gotBytes v c bs s) = timeout s"
  "totalRead (gotBytes v c bs s) = totalRead s + of_nat (length bs)"
  by (simp_all add: gotBytes_def Let_def addCounterMetrics_def push_def netcall_def)

lemma gotBytes_grows: "grows s (gotBytes v c bs s)"
  by (simp add: gotBytes_def Let_def addCounterMetrics_def push_def netcall_def grows_def)

lemma bufferFilled_fields [simp]:
  "state (bufferFilled v bs s) = state s" "conn (bufferFilled v bs s) = conn s"
  "handlers (bufferFilled v bs s) = handlers s" "cancelled (bufferFilled v bs s) = cancelled s"
  "destroyOnce (bufferFilled v bs s) = destroyOnce s" "sent (bufferFilled v bs s) = sent s"
  "metrics (bufferFilled v bs s) = metrics s" "timeout (bufferFilled v bs s) = timeout s"
  "totalRead (bufferFilled v bs s) = totalRead s" "tick (bufferFilled v bs s) = Suc (tick s)"
  "heap (bufferFilled v bs s) = (heap s)(PoolGet v (tick s) (inUse s) := bs)"
  "inUse (bufferFilled v bs s) = PoolGet v (tick s) (inUse s) # inUse s"
  by (simp_all add: bufferFilled_def Let_def)

lemma bufferFilled_grows: "grows s (bufferFilled v bs s)"
  by (simp add: bufferFilled_def Let_def ticked.grows_op)

lemma readData_inv: "sock_inv s \<Longrightarrow> sock_inv (stateOf (readData v c bs s))"
  by (auto simp: readData_state Let_def sock_inv_def)

lemma readData_grows: "grows s (stateOf (readData v c bs s))"
  by (auto simp: readData_state Let_def netcall.grows_op
      intro: grows_trans [OF grows_trans [OF gotBytes_grows bufferFilled_grows] fireAndCleanup.grows_op])

lemma readTail_effect: "effect (\<lambda>s. stateOf (readTail v err s))"
  unfolding effect_def readTail_def
  by (auto simp: fire.core_op handleError.core_op fire.grows_op handleError.grows_op split: option.split)

interpretation readTail: effect "\<lambda>s. stateOf (readTail v err s)"
  by (rule readTail_effect)

lemma readLoopStep_op:
  assumes "polite i"
  shows "socket_op (\<lambda>s. stateOf (readLoopStep v c tmo i s))"
  unfolding readLoopStep_def
proof (rule socket_op_andThen)
  have d: "socket_op (during i)" and a: "socket_op (after i)" using assms by (simp_all add: polite_def)
  have "socket_op (\<lambda>s. stateOf (readData v c (rBytes i) s))" by (simp add: socket_op_def readData_inv readData_grows)
  from socket_op_comp [OF socket_op_comp [OF readBefore.socket_op_axioms d] this]
  show "socket_op (\<lambda>s. stateOf (readData v c (rBytes i) (during i (readBefore v c tmo s))))" .
  show "socket_op (\<lambda>s. stateOf (readTail v (rErr i) (after i s)))" for x :: unit
    by (rule socket_op_comp [OF a readTail.socket_op_axioms])
qed

lemma readLoop_op: "\<forall>i \<in> set items. polite i \<Longrightarrow> socket_op (\<lambda>s. stateOf (readLoop v items s))"
proof (induction items)
  case (Cons i items)
  have "socket_op (\<lambda>s. stateOf (if b then readLoop v items s else Returns True s))" for b
    using Cons by (cases b) (simp_all add: socket_op_def)
  from socket_op_andThen [OF readLoopStep_op this, of i v]
  have "socket_op (\<lambda>s. stateOf (andThen (readLoopStep v c tmo i s)
      (\<lambda>continue s1. if continue then readLoop v items s1 else Returns True s1)))" for c tmo
    using Cons.prems by simp
  then show ?case by (auto simp: socket_op_def split: option.split)
qed (simp add: socket_op_def)

lemma read_op: "\<forall>i \<in> set items. polite i \<Longrightarrow> socket_op (\<lambda>s. stateOf (read v items s))"
  unfolding read_def
proof (rule socket_op_andThen [OF readLoop_op])
  fix b
  show "socket_op (\<lambda>s. stateOf (if b then andThen (destroy v s) (\<lambda>_ s2. Returns True s2) else Returns False s))"
    using destroy.socket_op_axioms [of v] by (cases b) (simp_all add: socket_op_def)
qed

section \<open>The end of the stream\<close>

definition stream_end :: "goerror \<Rightarrow> bool" where
  "stream_end e \<longleftrightarrow> errors_Is e EOF \<or> \<not> is_timeout e"

text \<open>Whether the loop goes on after a read.\<close>

definition goesOn :: "goerror option \<Rightarrow> ('h, 'ts) rt \<Rightarrow> bool" where
  "goesOn err s \<longleftrightarrow> isReadable s \<and> (case err of None \<Rightarrow> True | Some e \<Rightarrow> \<not> stream_end e)"

lemma readTail_value: "readTail v err s = Returns b t \<Longrightarrow> b = goesOn err s"
  by (auto simp: readTail_def goesOn_def stream_end_def andThen_Returns split: if_splits option.splits)

lemma readLoop_ends:
  "\<exists>i \<in> set items. \<exists>e. rErr i = Some e \<and> stream_end e \<Longrightarrow> readLoop v items s = Returns b t \<Longrightarrow> b"
proof (induction items arbitrary: s)
  case (Cons i items)
  show ?case
  proof (cases "\<exists>e. rErr i = Some e \<and> stream_end e")
    case True
    then show ?thesis using Cons.prems(2)
      by (auto simp: readLoopStep_def andThen_Returns goesOn_def dest!: readTail_value split: if_splits option.splits)
  next
    case False
    then show ?thesis using Cons by (auto simp: andThen_Returns split: if_splits option.splits)
  qed
qed simp

lemma read_ends:
  assumes "\<exists>i \<in> set items. \<exists>e. rErr i = Some e \<and> stream_end e" "read v items s = Returns ended t"
  shows "ended \<and> destroyOnce t \<and> destroy v t = Returns () t"
  using assms(2) readLoop_ends [OF assms(1)] destroy_done
  by (fastforce simp: read_def andThen_Returns split: if_splits)

text \<open>The reader is never stuck outside \<open>conn.Read\<close> as long as no event waits for ever.\<close>

lemma readData_returns: "attentive v \<Longrightarrow> \<not> blocked (readData v c bs s)"
  by (subst readData_eq) (simp add: Let_def blocked_andThen, subst fireAndCleanup_eq, simp)

lemma readTail_returns: "attentive v \<Longrightarrow> \<not> blocked (readTail v err s)"
  by (simp add: readTail_def blocked_andThen handleError_eq Let_def split: option.split) (subst fire_eq, simp)

lemma readLoop_returns: "attentive v \<Longrightarrow> \<not> blocked (readLoop v items s)"
  by (induction items arbitrary: s)
    (auto simp: readLoopStep_def blocked_andThen readData_returns readTail_returns split: option.split)

lemma read_returns: "attentive v \<Longrightarrow> \<not> blocked (read v items s)"
  by (auto simp: read_def blocked_andThen readLoop_returns destroy_eq)

lemma readData_blocks: "readData v c bs s = Blocks t \<Longrightarrow> waitsFor v ''data'' t"
  by (auto simp: readData_eq andThen_Blocks Let_def intro: fireAndCleanup_blocks split: if_splits)

lemma readTail_blocks: "readTail v err s = Blocks t \<Longrightarrow> \<exists>event. waitsFor v event t"
  by (auto simp: readTail_def andThen_Blocks intro: fire_blocks handleError_blocks split: if_splits option.splits)

lemma readLoop_blocks: "readLoop v items s = Blocks t \<Longrightarrow> \<exists>event. waitsFor v event t"
  by (induction items arbitrary: s)
    (auto simp: readLoopStep_def andThen_Blocks dest: readData_blocks readTail_blocks split: if_splits option.splits)

lemma read_blocks: "read v items s = Blocks t \<Longrightarrow> \<exists>event. waitsFor v event t"
  by (auto simp: read_def andThen_Blocks dest: readLoop_blocks destroy_blocks split: if_splits)

text \<open>The samples of the reader carry the tags of the virtual user at that time.\<close>

lemma readData_tagged: "tagged (\<lambda>ts. \<exists>n. ts = CurrentTags v n) s (stateOf (readData v c bs s))"
proof (cases "bs = []")
  case False
  show ?thesis
    by (rule tagged_pushed [of _ _ v "tcpReads (metrics s)" "CurrentTags v (Suc (tick s))" 1 "Suc (tick s)"])
      (simp_all add: readData_state False Let_def bufferFilled_def gotBytes_def addCounterMetrics_def push_def netcall_def
        currentTags_def, blast)
qed (simp add: readData_state tagged_def netcall_def)

lemma readTail_tagged: "tagged (\<lambda>ts. \<exists>n. ts = CurrentTags v n) s (stateOf (readTail v err s))"
proof (cases "isReadable s \<and> (\<exists>e. err = Some e \<and> \<not> errors_Is e EOF \<and> \<not> is_timeout e)")
  case True
  show ?thesis
    by (rule tagged_pushed [of _ _ v "tcpErrors (metrics s)" "CurrentTags v (tick s)" 1 "tick s"])
      (use True in \<open>auto simp: readTail_def handleError_state currentTags_def\<close>)
qed (auto simp: readTail_def tagged_def split: option.split)

section \<open>The data that reaches the handler\<close>

text \<open>
  What k6's buffer pool promises: a buffer is handed out to one owner at a time.
\<close>

definition pool_law :: "'ts vu \<Rightarrow> bool" where
  "pool_law v \<longleftrightarrow> (\<forall>t used. PoolGet v t used \<notin> set used)"

definition quiet :: "('h, 'ts) readItem \<Rightarrow> bool" where
  "quiet i \<longleftrightarrow> during i = id \<and> after i = id"

text \<open>The items the loop gets to when nothing but the network ends it.\<close>

fun consumed :: "('h, 'ts) readItem list \<Rightarrow> ('h, 'ts) readItem list" where
  "consumed [] = []"
| "consumed (i # items) = i # (case rErr i of
       None \<Rightarrow> consumed items
     | Some e \<Rightarrow> if stream_end e then [] else consumed items)"

definition payload :: "(nat \<Rightarrow> byte list) \<Rightarrow> 'h callback \<Rightarrow> byte list" where
  "payload h cb = (if cbEvent cb = ''data''
     then concat (map (\<lambda>a. case toValue h a of JSBytes bs \<Rightarrow> bs | JSError _ \<Rightarrow> []) (cbArgs cb)) else [])"

lemma payload_other: "cbEvent cb \<noteq> ''data'' \<Longrightarrow> payload h cb = []"
  by (simp add: payload_def)

lemma readTail_state:
  "stateOf (readTail v err s) = (case err of
      Some e \<Rightarrow> if \<not> isReadable s \<or> errors_Is e EOF then s
        else if is_timeout e then stateOf (fire v ''timeout'' [] s)
        else stateOf (handleError v e ''read'' (currentTags v s) s)
    | None \<Rightarrow> s)"
  by (simp add: readTail_def split: option.split)

lemma readTail_sent:
  "\<exists>cs. sent (stateOf (readTail v err s)) = sent s @ cs \<and> (\<forall>h. concat (map (payload h) cs) = [])"
proof -
  have f: "cb \<in> set (fired v cl ev a t) \<Longrightarrow> ev \<noteq> ''data'' \<Longrightarrow> payload h cb = []" for cb h cl ev a t
    by (auto simp: payload_other dest: fired_event)
  show ?thesis
    by (auto simp: readTail_state handleError_state sent_fire dest!: f split: option.split)
qed

lemma readTail_memory [simp]:
  "heap (stateOf (readTail v err s)) = heap s" "inUse (stateOf (readTail v err s)) = inUse s"
  by (auto simp: readTail_state split: option.split)

text \<open>One round: the bytes are in a fresh buffer, and the callback that holds it was sent.\<close>

lemma readData_sent:
  assumes h: "handlers s ''data'' = Some (Callable fn)" and sel: "\<And>t. SelectSend v t = Received" and ne: "bs \<noteq> []"
  shows "\<exists>b. b = PoolGet v (tick (gotBytes v c bs s)) (inUse s) \<and>
    sent (stateOf (readData v c bs s)) = sent s @ [\<lparr>cbEvent = ''data'', cbHandler = fn, cbArgs = [ArgBytes b], cbCleanup = Some b\<rparr>] \<and>
    heap (stateOf (readData v c bs s)) = (heap s)(b := bs) \<and> inUse (stateOf (readData v c bs s)) = b # inUse s"
  using ne sel h by (simp add: readData_state Let_def fireAndCleanup_def prepareCallback_handled sendCallback_def)

lemma readData_fields [simp]:
  "state (stateOf (readData v c bs s)) = state s" "conn (stateOf (readData v c bs s)) = conn s"
  "handlers (stateOf (readData v c bs s)) = handlers s" "timeout (stateOf (readData v c bs s)) = timeout s"
  "totalRead (stateOf (readData v c bs s)) = totalRead s + of_nat (length bs)"
  "metrics (stateOf (readData v c bs s)) = metrics s" "destroyOnce (stateOf (readData v c bs s)) = destroyOnce s"
  by (simp_all add: readData_state Let_def)

text \<open>A round that nobody disturbs and in which no event waits.\<close>

lemma quiet_step:
  assumes "attentive v" "quiet i" "readLoopStep v c tmo i s = Returns b t"
  shows "t = stateOf (readTail v (rErr i) (stateOf (readData v c (rBytes i) (readBefore v c tmo s))))"
    "b = goesOn (rErr i) s"
proof -
  let ?d = "readData v c (rBytes i) (readBefore v c tmo s)"
  obtain u where d: "?d = Returns () u" using readData_returns [OF assms(1)] not_blocked by (metis old.unit.exhaust)
  then have r: "readTail v (rErr i) u = Returns b t"
    using assms(2,3) by (simp add: readLoopStep_def quiet_def)
  then show "t = stateOf (readTail v (rErr i) (stateOf ?d))" by (simp add: d)
  have "isReadable u = isReadable s"
    using readData_fields(1) [of v c "rBytes i" "readBefore v c tmo s"] by (simp add: d isReadable_def isConnected_def)
  then show "b = goesOn (rErr i) s" using readTail_value [OF r] by (simp add: goesOn_def)
qed

lemma quiet_fields:
  assumes "attentive v" "quiet i" "state s = Open" "readLoopStep v c tmo i s = Returns b t"
  shows "state t = Open" "conn t = conn s" "handlers t = handlers s"
    "totalRead t = totalRead s + of_nat (length (rBytes i))"
    "b = (case rErr i of None \<Rightarrow> True | Some e \<Rightarrow> \<not> stream_end e)"
  using quiet_step [OF assms(1,2,4)] assms(3) by (simp_all add: goesOn_def isReadable_def isConnected_def)

lemma quiet_returns:
  assumes "attentive v"
  obtains b t where "readLoopStep v c tmo i s = Returns b t"
  using assms readData_returns readTail_returns not_blocked
  by (metis (no_types, lifting) readLoopStep_def blocked_andThen)

lemma readLoop_round:
  assumes "state s = Open" "conn s = Some c" "readLoopStep v c (timeout s) i s = Returns b t"
  shows "readLoop v (i # items) s = (if b then readLoop v items t else Returns True t)"
  using assms by (simp add: isReadable_def isConnected_def)

definition delivers :: "('h, 'ts) readItem list \<Rightarrow> ('h, 'ts) rt \<Rightarrow> ('h, 'ts) rt \<Rightarrow> bool" where
  "delivers items s t \<longleftrightarrow>
     (\<exists>cs. sent t = sent s @ cs \<and> concat (map (payload (heap t)) cs) = concat (map rBytes (consumed items))) \<and>
     set (inUse s) \<subseteq> set (inUse t) \<and> (\<forall>b \<in> set (inUse s). heap t b = heap s b)"

lemma quiet_round:
  assumes "pool_law v" "\<And>t. SelectSend v t = Received" "quiet i" "handlers s ''data'' = Some (Callable fn)"
    and step: "readLoopStep v c tmo i s = Returns b t"
  shows "\<exists>cs. sent t = sent s @ cs \<and> set (inUse s) \<subseteq> set (inUse t) \<and> (\<forall>b \<in> set (inUse s). heap t b = heap s b) \<and>
    (\<forall>h. (\<forall>b \<in> set (inUse t). h b = heap t b) \<longrightarrow> concat (map (payload h) cs) = rBytes i)"
proof -
  let ?s0 = "readBefore v c tmo s"
  let ?s1 = "stateOf (readData v c (rBytes i) ?s0)"
  have s0: "sent ?s0 = sent s" "heap ?s0 = heap s" "inUse ?s0 = inUse s"
    by (simp_all add: readBefore_def netcall_def ticked_def)
  have t: "t = stateOf (readTail v (rErr i) ?s1)"
    using quiet_step(1) [OF received_attentive [OF assms(2)] assms(3) step] .
  obtain cs where cs: "sent t = sent ?s1 @ cs" "\<forall>h. concat (map (payload h) cs) = []"
    unfolding t using readTail_sent by blast
  show ?thesis
  proof (cases "rBytes i = []")
    case True
    then have "sent ?s1 = sent s" "heap ?s1 = heap s" "inUse ?s1 = inUse s"
      by (simp_all add: readData_state netcall_def s0)
    with cs True show ?thesis by (auto simp: t)
  next
    case False
    from assms(4) have h0: "handlers ?s0 ''data'' = Some (Callable fn)" by simp
    let ?b = "PoolGet v (tick (gotBytes v c (rBytes i) ?s0)) (inUse ?s0)"
    have fresh: "?b \<notin> set (inUse s)" using assms(1) by (simp add: pool_law_def s0)
    from readData_sent [OF h0 assms(2) False, of c]
    have "sent ?s1 = sent s @ [\<lparr>cbEvent = ''data'', cbHandler = fn, cbArgs = [ArgBytes ?b], cbCleanup = Some ?b\<rparr>]"
      "heap ?s1 = (heap s)(?b := rBytes i)" "inUse ?s1 = ?b # inUse s"
      by (simp_all add: s0)
    with cs fresh show ?thesis by (auto simp: t payload_def)
  qed
qed

lemma delivers_Cons:
  assumes cs: "sent t = sent s @ cs" "set (inUse s) \<subseteq> set (inUse t)" "\<forall>b \<in> set (inUse s). heap t b = heap s b"
      "\<forall>h. (\<forall>b \<in> set (inUse t). h b = heap t b) \<longrightarrow> concat (map (payload h) cs) = rBytes i"
    and "delivers items' t u" and "concat (map rBytes (consumed (i # items))) = rBytes i @ concat (map rBytes (consumed items'))"
  shows "delivers (i # items) s u"
proof -
  from assms(5) obtain ds where ds: "sent u = sent t @ ds"
      "concat (map (payload (heap u)) ds) = concat (map rBytes (consumed items'))"
    and use: "set (inUse t) \<subseteq> set (inUse u)" "\<forall>b \<in> set (inUse t). heap u b = heap t b"
    unfolding delivers_def by blast
  have "concat (map (payload (heap u)) cs) = rBytes i" using cs(4) use(2) by blast
  then have "concat (map (payload (heap u)) (cs @ ds)) = concat (map rBytes (consumed (i # items)))"
    using ds assms(6) by simp
  moreover have "sent u = sent s @ cs @ ds" using cs(1) ds(1) by simp
  ultimately show ?thesis using cs(2,3) use unfolding delivers_def by (metis subset_iff)
qed

text \<open>
  With the handler in place, an event loop that takes callbacks, and a pool that keeps its
  promise, the \<open>data\<close> callbacks hold exactly the bytes that arrived, in order, whatever
  comes after them, and \<open>bytes_read\<close> counts them.
\<close>

lemma readLoop_delivers:
  assumes "pool_law v" "\<And>t. SelectSend v t = Received" "\<forall>i \<in> set items. quiet i"
    and "state s = Open" "conn s = Some c" "handlers s ''data'' = Some (Callable fn)"
  shows "delivers items s (stateOf (readLoop v items s)) \<and>
    totalRead (stateOf (readLoop v items s)) = totalRead s + of_nat (length (concat (map rBytes (consumed items))))"
  using assms(3-)
proof (induction items arbitrary: s)
  case Nil
  then show ?case by (simp add: delivers_def)
next
  case (Cons i items)
  note att = received_attentive [OF assms(2)]
  obtain go t where step: "readLoopStep v c (timeout s) i s = Returns go t" by (rule quiet_returns [OF att])
  from Cons.prems have q: "quiet i" and o: "state s = Open" and c: "conn s = Some c"
    and h: "handlers s ''data'' = Some (Callable fn)" by auto
  note f = quiet_fields [OF att q o step]
  from quiet_round [OF assms(1,2) q h step] obtain cs where cs:
    "sent t = sent s @ cs" "set (inUse s) \<subseteq> set (inUse t)" "\<forall>b \<in> set (inUse s). heap t b = heap s b"
    "\<forall>h. (\<forall>b \<in> set (inUse t). h b = heap t b) \<longrightarrow> concat (map (payload h) cs) = rBytes i" by blast
  have eq: "stateOf (readLoop v (i # items) s) = (if go then stateOf (readLoop v items t) else t)"
    using readLoop_round [OF o c step] by simp
  have ih: "delivers items t (stateOf (readLoop v items t)) \<and>
    totalRead (stateOf (readLoop v items t)) = totalRead t + of_nat (length (concat (map rBytes (consumed items))))"
    using Cons.prems f by (intro Cons.IH) auto
  show ?case
  proof (cases go)
    case True
    then have c: "consumed (i # items) = i # consumed items" using f(5) by (auto split: option.splits)
    have "delivers (i # items) s (stateOf (readLoop v items t))"
      using ih by (intro delivers_Cons [OF cs, of items]) (simp_all add: c del: consumed.simps)
    with True ih f(4) show ?thesis unfolding eq c by (simp add: add.assoc)
  next
    case False
    then have c: "consumed (i # items) = [i]" using f(5) by (auto split: option.splits)
    have "delivers (i # items) s t"
      by (intro delivers_Cons [OF cs, of "[]"]) (simp_all add: c delivers_def del: consumed.simps(2))
    with False f(4) show ?thesis unfolding eq c by simp
  qed
qed

section \<open>The errors that reach the handler\<close>

text \<open>A read that is reported: an error that is neither the end of the stream nor a timeout.\<close>

definition fatal :: "('h, 'ts) readItem \<Rightarrow> bool" where
  "fatal i \<longleftrightarrow> (\<exists>e. rErr i = Some e \<and> \<not> errors_Is e EOF \<and> \<not> is_timeout e)"

definition errorEvents :: "('h, 'ts) rt \<Rightarrow> 'h callback list" where
  "errorEvents s = filter (\<lambda>cb. cbEvent cb = ''error'') (sent s)"

definition readError :: "'h \<Rightarrow> ('h, 'ts) readItem \<Rightarrow> 'h callback" where
  "readError fn i = \<lparr>cbEvent = ''error'', cbHandler = fn,
     cbArgs = [ArgError (TCPError (newTCPError (the (rErr i)) ''read''))], cbCleanup = None\<rparr>"

lemma fatal_consumed: "length (filter fatal (consumed items)) \<le> 1"
  by (induction items) (auto simp: fatal_def stream_end_def split: option.splits)

lemma readData_no_error: "errorEvents (stateOf (readData v c bs s)) = errorEvents s"
  by (auto simp: readData_state Let_def errorEvents_def netcall_def sent_fireAndCleanup dest: fired_event
      intro!: filter_False)

lemma readTail_errors:
  assumes "state s = Open" "handlers s ''error'' = Some (Callable fn)" "\<And>t. SelectSend v t = Received"
  shows "errorEvents (stateOf (readTail v (rErr i) s)) = errorEvents s @ (if fatal i then [readError fn i] else [])"
proof (cases "rErr i")
  case None
  then show ?thesis by (simp add: readTail_state fatal_def)
next
  case (Some e)
  have t: "filter (\<lambda>cb. cbEvent cb = ''error'') (fired v None ''timeout'' [] s) = []"
    by (auto simp: filter_empty_conv dest: fired_event)
  have h: "fired v None ''error'' a (addErrorMetrics v ts s) =
      [\<lparr>cbEvent = ''error'', cbHandler = fn, cbArgs = a, cbCleanup = None\<rparr>]" for a ts
    using assms(2,3) by (simp add: fired_def prepareCallback_handled)
  show ?thesis
    using Some assms(1) by (auto simp: readTail_state isReadable_def isConnected_def sent_fire
        handleError_state errorEvents_def fatal_def readError_def t h)
qed

lemma quiet_errors:
  assumes "quiet i" "state s = Open" "handlers s ''error'' = Some (Callable fn)" "\<And>t. SelectSend v t = Received"
    and "readLoopStep v c tmo i s = Returns b t"
  shows "errorEvents t = errorEvents s @ (if fatal i then [readError fn i] else [])"
proof -
  have "errorEvents (readBefore v c tmo s) = errorEvents s"
    by (simp add: errorEvents_def readBefore_def netcall_def)
  then show ?thesis
    using readTail_errors [of "stateOf (readData v c (rBytes i) (readBefore v c tmo s))" fn v i] assms
      quiet_step(1) [OF received_attentive [OF assms(4)] assms(1,5)]
    by (simp add: readData_no_error)
qed

lemma readLoop_errors:
  assumes "\<And>t. SelectSend v t = Received" "\<forall>i \<in> set items. quiet i"
    and "state s = Open" "conn s = Some c" "handlers s ''error'' = Some (Callable fn)"
  shows "errorEvents (stateOf (readLoop v items s)) = errorEvents s @ map (readError fn) (filter fatal (consumed items))"
  using assms(2-)
proof (induction items arbitrary: s)
  case (Cons i items)
  note att = received_attentive [OF assms(1)]
  obtain go t where step: "readLoopStep v c (timeout s) i s = Returns go t" by (rule quiet_returns [OF att])
  from Cons.prems have q: "quiet i" and o: "state s = Open" and c: "conn s = Some c" by auto
  note f = quiet_fields [OF att q o step]
  have eq: "stateOf (readLoop v (i # items) s) = (if go then stateOf (readLoop v items t) else t)"
    using readLoop_round [OF o c step] by simp
  have t: "errorEvents t = errorEvents s @ (if fatal i then [readError fn i] else [])"
    using Cons.prems by (intro quiet_errors [OF q o _ assms(1) step]) simp
  have ih: "errorEvents (stateOf (readLoop v items t)) = errorEvents t @ map (readError fn) (filter fatal (consumed items))"
    using Cons.prems f by (intro Cons.IH) auto
  show ?case
    using t ih f(5) unfolding eq by (auto split: option.splits)
qed simp

end
