(* ===== verification/Machine.thy ===== *)
theory Machine
  imports Read
begin

text \<open>
  The goroutines of one socket, interleaved. A world holds the socket, its mutex, its
  \<open>sync.Once\<close>, a program counter for each goroutine (number 0 is the event loop of the
  virtual user, which runs all JavaScript), whether the socket's loop goroutine still
  receives from \<open>callChan\<close> (\<open>tcp/socket_loop.go\<close>), and which of the received callbacks have
  been run. A step is what one goroutine does between two points where another can get in the
  way: taking the mutex, a blocking read or write, the \<open>select\<close> of \<open>fireAndCleanup\<close>,
  entering \<open>destroyOnce\<close>, the start of another goroutine. The segments are those of the
  sequential theories.

  \<open>callChan\<close> has no buffer: a sender and the loop goroutine meet, so a send is a step of the
  sender that is possible while the loop goroutine lives; the other branch of the
  \<open>select\<close> is possible when the context of the virtual user is done.
\<close>

section \<open>Worlds\<close>

datatype ('h, 'ts) pc =
    Unused
  | JSReady
  | Ended
  | Sending "'h callback" "('h, 'ts) pc"
  | Failing "nat option" goerror string 'ts "('h, 'ts) pc"
  | Rejecting "nat option" goerror string "('h, 'ts) pc"
  | ConnStart nat
  | ConnResolve nat 'ts
  | ConnDial nat 'ts
  | ConnFire nat 'ts
  | ConnSpawn nat 'ts
  | ConnDone nat 'ts
  | ReadHead
  | ReadSnap
  | ReadWait conn
  | ReadCheck "goerror option"
  | WriteStart nat "byte list" writeOptions
  | WriteRun nat conn "byte list" nat writeOptions
  | DestroyEnter "('h, 'ts) pc"
  | DestroyLock "('h, 'ts) pc"
  | DestroyClose "conn option \<times> duration \<times> 'ts" "('h, 'ts) pc"
  | DestroyFire "('h, 'ts) pc"
  | DestroyCancel "('h, 'ts) pc"

datatype once = Fresh | Running nat | OnceDone

record ('h, 'ts) world =
  sk :: "('h, 'ts) rt"
  lock :: "nat option"
  onceSt :: once
  pcs :: "nat \<Rightarrow> ('h, 'ts) pc"
  loopAlive :: bool
  vuDone :: bool
  ran :: nat
  running :: "'h callback option"
  promised :: nat

text \<open>Firing an event ends in the \<open>select\<close> of \<open>fireAndCleanup\<close>, or at once without a handler.\<close>

definition firing :: "string \<Rightarrow> evarg list \<Rightarrow> ('h, 'ts) rt \<Rightarrow> ('h, 'ts) pc \<Rightarrow> ('h, 'ts) pc" where
  "firing event args s k = (case prepareCallback None event args s of None \<Rightarrow> k | Some cb \<Rightarrow> Sending cb k)"

definition goto :: "nat \<Rightarrow> ('h, 'ts) pc \<Rightarrow> ('h, 'ts) world \<Rightarrow> ('h, 'ts) world" where
  "goto i k w = w\<lparr>pcs := (pcs w)(i := k)\<rparr>"

definition onSock :: "(('h, 'ts) rt \<Rightarrow> ('h, 'ts) rt) \<Rightarrow> ('h, 'ts) world \<Rightarrow> ('h, 'ts) world" where
  "onSock f w = w\<lparr>sk := f (sk w)\<rparr>"

definition start :: "tcpMetrics \<Rightarrow> ('h, 'ts) world" where
  "start m = \<lparr>sk = newSocket m, lock = None, onceSt = Fresh, pcs = (\<lambda>_. Unused)(0 := JSReady),
     loopAlive = True, vuDone = False, ran = 0, running = None, promised = 0\<rparr>"

text \<open>What the check after a read decides (\<open>readLoopStep\<close> from the second \<open>isReadable\<close> on).\<close>

definition afterRead :: "'ts vu \<Rightarrow> goerror option \<Rightarrow> ('h, 'ts) rt \<Rightarrow> ('h, 'ts) pc" where
  "afterRead v err s =
     (if \<not> isReadable s then DestroyEnter Ended
      else case err of
        None \<Rightarrow> ReadHead
      | Some e \<Rightarrow>
          if errors_Is e EOF then DestroyEnter Ended
          else if is_timeout e then firing ''timeout'' [] s ReadHead
          else Failing None e ''read'' (currentTags v s) (DestroyEnter Ended))"

text \<open>A read that returned bytes: the filled buffer, and the \<open>data\<close> event for it.\<close>

definition dataRead :: "'ts vu \<Rightarrow> nat \<Rightarrow> conn \<Rightarrow> byte list \<Rightarrow> goerror option \<Rightarrow> ('h, 'ts) world \<Rightarrow> ('h, 'ts) world" where
  "dataRead v i c bs err w =
     (let s2 = gotBytes v c bs (sk w); b = PoolGet v (tick s2) (inUse s2); s3 = bufferFilled v bs s2
      in case prepareCallback (Some b) ''data'' [ArgBytes b] s3 of
           None \<Rightarrow> goto i (ReadCheck err) (w\<lparr>sk := bufferPut (Some b) s3\<rparr>)
         | Some cb \<Rightarrow> goto i (Sending cb (ReadCheck err)) (w\<lparr>sk := s3\<rparr>))"

section \<open>Steps\<close>

inductive step :: "golib \<Rightarrow> 'ts vu \<Rightarrow> 'v sobek \<Rightarrow> ('h, 'ts) world \<Rightarrow> ('h, 'ts) world \<Rightarrow> bool"
  for G v sb where
  js_on: "pcs w 0 = JSReady \<Longrightarrow> step G v sb w (onSock (on e h) w)"
| js_setTimeout: "pcs w 0 = JSReady \<Longrightarrow> lock w = None \<Longrightarrow>
    step G v sb w (onSock (\<lambda>s. snd (setTimeout v ms s)) w)"
| js_connect: "pcs w 0 = JSReady \<Longrightarrow> connectPrepare sb a h (sk w) = (None, s1) \<Longrightarrow> pcs w j = Unused \<Longrightarrow> p = promised w \<Longrightarrow>
    step G v sb w (goto j (ConnStart p) (w\<lparr>sk := go (GoConnect p) s1, promised := Suc p\<rparr>))"
| js_connect_err: "pcs w 0 = JSReady \<Longrightarrow> connectPrepare sb a h (sk w) = (Some e, s1) \<Longrightarrow> p = promised w \<Longrightarrow>
    step G v sb w (goto 0 (Failing (Some p) e ''connect'' (tags v s1) JSReady) (w\<lparr>sk := s1, promised := Suc p\<rparr>))"
| js_write: "pcs w 0 = JSReady \<Longrightarrow> writePrepare G sb a wo = (Inr bs, opts) \<Longrightarrow> pcs w j = Unused \<Longrightarrow>
    p = promised w \<Longrightarrow>
    step G v sb w (goto j (WriteStart p bs opts) (onSock (go (GoWrite p bs opts)) (w\<lparr>promised := Suc p\<rparr>)))"
| js_write_err: "pcs w 0 = JSReady \<Longrightarrow> writePrepare G sb a wo = (Inl e, opts) \<Longrightarrow> p = promised w \<Longrightarrow>
    step G v sb w (goto 0 (Failing (Some p) e ''write'' (addToTagSet v (currentTags v (sk w)) (woTags opts)) JSReady)
      (w\<lparr>promised := Suc p\<rparr>))"
| js_destroy: "pcs w 0 = JSReady \<Longrightarrow> step G v sb w (goto 0 (DestroyEnter JSReady) w)"
| js_callback: "pcs w 0 = JSReady \<Longrightarrow> running w = None \<Longrightarrow> ran w < length (sent (sk w)) \<Longrightarrow>
    step G v sb w (w\<lparr>running := Some (sent (sk w) ! ran w), ran := Suc (ran w)\<rparr>)"
| js_return: "pcs w 0 = JSReady \<Longrightarrow> running w = Some cb \<Longrightarrow>
    step G v sb w (onSock (bufferPut (cbCleanup cb)) (w\<lparr>running := None\<rparr>))"
| send: "pcs w i = Sending cb k \<Longrightarrow> loopAlive w \<Longrightarrow> step G v sb w (goto i k (onSock (sendCallback cb) w))"
| send_abort: "pcs w i = Sending cb k \<Longrightarrow> vuDone w \<Longrightarrow>
    step G v sb w (goto i k (onSock (\<lambda>s. bufferPut (cbCleanup cb) (ticked s)) w))"
| fail: "pcs w i = Failing p e m ts k \<Longrightarrow> s1 = addErrorMetrics v ts (sk w) \<Longrightarrow>
    step G v sb w (goto i (firing ''error'' [ArgError (TCPError (newTCPError e m))] s1 (Rejecting p e m k)) (w\<lparr>sk := s1\<rparr>))"
| reject: "pcs w i = Rejecting (Some p) e m k \<Longrightarrow>
    step G v sb w (goto i k (onSock (settle p (Rejected (TCPError (newTCPError e m)))) w))"
| reject_none: "pcs w i = Rejecting None e m k \<Longrightarrow> step G v sb w (goto i k w)"
| conn_lock: "pcs w i = ConnStart p \<Longrightarrow> lock w = None \<Longrightarrow>
    step G v sb w (goto i (ConnResolve p (tags v (sk w))) (w\<lparr>lock := Some i, sk := (sk w)\<lparr>state := Opening\<rparr>\<rparr>))"
| conn_resolve: "pcs w i = ConnResolve p ts \<Longrightarrow> connectOpts (sk w) = Some co \<Longrightarrow>
    addDurationMetricsFor v (tcpResolving (metrics (sk w))) ts (resolve v co) (sk w) = (None, s1) \<Longrightarrow>
    step G v sb w (goto i (ConnDial p ts) (w\<lparr>sk := s1\<rparr>))"
| conn_resolve_err: "pcs w i = ConnResolve p ts \<Longrightarrow> connectOpts (sk w) = Some co \<Longrightarrow>
    addDurationMetricsFor v (tcpResolving (metrics (sk w))) ts (resolve v co) (sk w) = (Some e, s1) \<Longrightarrow>
    step G v sb w (goto i (Failing (Some p) e ''connect'' (tags v s1) Ended)
      (w\<lparr>lock := None, sk := s1\<lparr>state := Disconnected\<rparr>\<rparr>))"
| conn_dial: "pcs w i = ConnDial p ts \<Longrightarrow> connectOpts (sk w) = Some co \<Longrightarrow>
    dialed v co ts (sk w) = (None, s1) \<Longrightarrow>
    step G v sb w (goto i (ConnFire p ts) (w\<lparr>lock := None, sk := s1\<rparr>))"
| conn_dial_err: "pcs w i = ConnDial p ts \<Longrightarrow> connectOpts (sk w) = Some co \<Longrightarrow>
    dialed v co ts (sk w) = (Some e, s1) \<Longrightarrow>
    step G v sb w (goto i (Failing (Some p) e ''connect'' (tags v s1) Ended)
      (w\<lparr>lock := None, sk := s1\<lparr>state := Disconnected\<rparr>\<rparr>))"
| conn_fire: "pcs w i = ConnFire p ts \<Longrightarrow>
    step G v sb w (goto i (firing ''connect'' [] (sk w) (ConnSpawn p ts)) w)"
| conn_spawn: "pcs w i = ConnSpawn p ts \<Longrightarrow> pcs w j = Unused \<Longrightarrow>
    step G v sb w (goto j ReadHead (goto i (ConnDone p ts) (onSock (go GoRead) w)))"
| conn_done: "pcs w i = ConnDone p ts \<Longrightarrow>
    step G v sb w (goto i Ended (onSock (\<lambda>s. settle p Resolved (addCounterMetrics v (tcpSockets (metrics s)) ts s)) w))"
| read_head: "pcs w i = ReadHead \<Longrightarrow> lock w = None \<Longrightarrow>
    step G v sb w (goto i (if isReadable (sk w) then ReadSnap else DestroyEnter Ended) w)"
| read_snap: "pcs w i = ReadSnap \<Longrightarrow> lock w = None \<Longrightarrow> conn (sk w) = Some c \<Longrightarrow>
    step G v sb w (goto i (ReadWait c) (onSock (\<lambda>s. readBefore v c (timeout s) s) w))"
| read_snap_none: "pcs w i = ReadSnap \<Longrightarrow> lock w = None \<Longrightarrow> conn (sk w) = None \<Longrightarrow>
    step G v sb w (goto i (DestroyEnter Ended) w)"
| read_nothing: "pcs w i = ReadWait c \<Longrightarrow>
    step G v sb w (goto i (ReadCheck err) (onSock (netcall (OpRead c 0)) w))"
| read_data: "pcs w i = ReadWait c \<Longrightarrow> bs \<noteq> [] \<Longrightarrow> length bs \<le> 4096 \<Longrightarrow> step G v sb w (dataRead v i c bs err w)"
| read_check: "pcs w i = ReadCheck err \<Longrightarrow> lock w = None \<Longrightarrow> step G v sb w (goto i (afterRead v err (sk w)) w)"
| write_start: "pcs w i = WriteStart p bs opts \<Longrightarrow> lock w = None \<Longrightarrow> conn (sk w) = Some c \<Longrightarrow>
    step G v sb w (goto i (WriteRun p c bs 0 opts) w)"
| write_start_none: "pcs w i = WriteStart p bs opts \<Longrightarrow> lock w = None \<Longrightarrow> conn (sk w) = None \<Longrightarrow>
    step G v sb w (goto i Ended (onSock (settle p (Rejected errNoActiveConnection)) w))"
| write_frag: "pcs w i = WriteRun p c bs n opts \<Longrightarrow> n < length bs \<Longrightarrow>
    ConnWrite v (tick (sk w)) c (drop n bs) = (d, None) \<Longrightarrow> d \<noteq> 0 \<Longrightarrow>
    step G v sb w (goto i (WriteRun p c bs (n + d) opts)
      (onSock (\<lambda>s. (wrote c bs n d None s)\<lparr>totalWritten := totalWritten s + of_nat d\<rparr>) w))"
| write_fail: "pcs w i = WriteRun p c bs n opts \<Longrightarrow> n < length bs \<Longrightarrow>
    ConnWrite v (tick (sk w)) c (drop n bs) = (d, Some e) \<Longrightarrow>
    e' = Errorf (''failed to write data after '' @ Itoa (int n) @ '' bytes: '') e '''' \<Longrightarrow>
    step G v sb w (goto i Ended (onSock (\<lambda>s. settle p (Rejected e') (writeMetrics v bs n (Some e') opts
      (wrote c bs n d (Some e) s))) w))"
| write_zero: "pcs w i = WriteRun p c bs n opts \<Longrightarrow> n < length bs \<Longrightarrow>
    ConnWrite v (tick (sk w)) c (drop n bs) = (0, None) \<Longrightarrow>
    e' = Errorf '''' errWrite0Bytes ('': after '' @ Itoa (int n) @ '' bytes'') \<Longrightarrow>
    step G v sb w (goto i Ended (onSock (\<lambda>s. settle p (Rejected e') (writeMetrics v bs n (Some e') opts
      (wrote c bs n 0 None s))) w))"
| write_done: "pcs w i = WriteRun p c bs n opts \<Longrightarrow> \<not> n < length bs \<Longrightarrow>
    step G v sb w (goto i Ended (onSock (\<lambda>s. settle p Resolved (writeMetrics v bs n None opts s)) w))"
| destroy_first: "pcs w i = DestroyEnter k \<Longrightarrow> onceSt w = Fresh \<Longrightarrow>
    step G v sb w (goto i (DestroyLock k) (w\<lparr>onceSt := Running i\<rparr>))"
| destroy_again: "pcs w i = DestroyEnter k \<Longrightarrow> onceSt w = OnceDone \<Longrightarrow> step G v sb w (goto i k w)"
| destroy_lock: "pcs w i = DestroyLock k \<Longrightarrow> lock w = None \<Longrightarrow>
    step G v sb w (goto i (DestroyClose (fst (destroyLocked v (sk w))) k) (onSock (\<lambda>s. snd (destroyLocked v s)) w))"
| destroy_close: "pcs w i = DestroyClose r k \<Longrightarrow>
    step G v sb w (goto i (DestroyFire k) (onSock (destroyClose v r) w))"
| destroy_fire: "pcs w i = DestroyFire k \<Longrightarrow>
    step G v sb w (goto i (firing ''close'' [] (sk w) (DestroyCancel k)) w)"
| destroy_cancel: "pcs w i = DestroyCancel k \<Longrightarrow>
    step G v sb w (goto i k (w\<lparr>onceSt := OnceDone, sk := (sk w)\<lparr>cancelled := True, destroyOnce := True\<rparr>\<rparr>))"
| loop_exit: "loopAlive w \<Longrightarrow> cancelled (sk w) \<or> vuDone w \<Longrightarrow> step G v sb w (w\<lparr>loopAlive := False\<rparr>)"
| vu_done: "step G v sb w (w\<lparr>vuDone := True\<rparr>)"

abbreviation reachable :: "golib \<Rightarrow> 'ts vu \<Rightarrow> 'v sobek \<Rightarrow> tcpMetrics \<Rightarrow> ('h, 'ts) world \<Rightarrow> bool" where
  "reachable G v sb m \<equiv> reach (\<lambda>w. w = start m) (step G v sb)"

section \<open>Where a goroutine can be\<close>

fun final :: "('h, 'ts) pc \<Rightarrow> bool" where
  "final JSReady = True"
| "final Ended = True"
| "final _ = False"

fun base :: "('h, 'ts) pc \<Rightarrow> bool" where
  "base (DestroyEnter k) = final k"
| "base k = final k"

text \<open>Where \<open>fireAndCleanup\<close> returns to, for each event.\<close>

fun returns_to :: "string \<Rightarrow> ('h, 'ts) pc \<Rightarrow> bool" where
  "returns_to ev (ConnSpawn p ts) = (ev = ''connect'')"
| "returns_to ev (ReadCheck err) = (ev = ''data'')"
| "returns_to ev ReadHead = (ev = ''timeout'')"
| "returns_to ev (Rejecting p e m k) = (ev = ''error'' \<and> base k)"
| "returns_to ev (DestroyCancel k) = (ev = ''close'' \<and> final k)"
| "returns_to ev _ = False"

fun wf_pc :: "('h, 'ts) pc \<Rightarrow> bool" where
  "wf_pc (Sending cb k) = returns_to (cbEvent cb) k"
| "wf_pc (Failing p e m ts k) = base k"
| "wf_pc (Rejecting p e m k) = base k"
| "wf_pc (DestroyEnter k) = final k"
| "wf_pc (DestroyLock k) = final k"
| "wf_pc (DestroyClose r k) = final k"
| "wf_pc (DestroyFire k) = final k"
| "wf_pc (DestroyCancel k) = final k"
| "wf_pc _ = True"

fun holds_lock :: "('h, 'ts) pc \<Rightarrow> bool" where
  "holds_lock (ConnResolve p ts) = True"
| "holds_lock (ConnDial p ts) = True"
| "holds_lock _ = False"

lemma goto_simps [simp]:
  "sk (goto i k w) = sk w" "lock (goto i k w) = lock w" "onceSt (goto i k w) = onceSt w"
  "pcs (goto i k w) = (pcs w)(i := k)" "loopAlive (goto i k w) = loopAlive w" "vuDone (goto i k w) = vuDone w"
  "ran (goto i k w) = ran w" "running (goto i k w) = running w"
  "promised (goto i k w) = promised w"
  by (simp_all add: goto_def)

lemma onSock_simps [simp]:
  "sk (onSock f w) = f (sk w)" "lock (onSock f w) = lock w" "onceSt (onSock f w) = onceSt w"
  "pcs (onSock f w) = pcs w" "loopAlive (onSock f w) = loopAlive w" "vuDone (onSock f w) = vuDone w"
  "ran (onSock f w) = ran w" "running (onSock f w) = running w"
  "promised (onSock f w) = promised w"
  by (simp_all add: onSock_def)

lemma prepareCallback_event: "prepareCallback cl ev a s = Some cb \<Longrightarrow> cbEvent cb = ev \<and> cbArgs cb = a \<and> cbCleanup cb = cl"
  by (auto simp: prepareCallback_def split: option.splits stored.splits)

lemma firing_cases:
  obtains "prepareCallback None ev a s = None" "firing ev a s k = k"
  | cb where "prepareCallback None ev a s = Some cb" "cbEvent cb = ev" "cbArgs cb = a" "cbCleanup cb = None"
      "firing ev a s k = Sending cb k"
  by (cases "prepareCallback None ev a s") (auto simp: firing_def dest: prepareCallback_event)

lemma final_cases: "final k \<Longrightarrow> k = JSReady \<or> k = Ended"
  by (cases k) auto

lemma base_cases: "base k \<Longrightarrow> k = JSReady \<or> k = Ended \<or> k = DestroyEnter JSReady \<or> k = DestroyEnter Ended"
  by (cases k) (auto dest: final_cases)

lemma base_wf: "base k \<Longrightarrow> wf_pc k"
  by (auto dest: base_cases)

lemma final_wf: "final k \<Longrightarrow> wf_pc k"
  by (auto dest: final_cases)

lemma returns_to_wf: "returns_to ev k \<Longrightarrow> wf_pc k"
  by (cases k) auto

lemma firing_wf [simp]: "returns_to ev k \<Longrightarrow> wf_pc (firing ev a s k)"
  by (rule firing_cases [of ev a s k]) (auto intro: returns_to_wf)

lemma afterRead_wf [simp]: "wf_pc (afterRead v err s)"
  by (auto simp: afterRead_def split: option.split)

lemma dataRead_simps [simp]:
  "lock (dataRead v i c bs err w) = lock w" "onceSt (dataRead v i c bs err w) = onceSt w"
  "loopAlive (dataRead v i c bs err w) = loopAlive w" "vuDone (dataRead v i c bs err w) = vuDone w"
  "ran (dataRead v i c bs err w) = ran w" "running (dataRead v i c bs err w) = running w"
  "promised (dataRead v i c bs err w) = promised w"
  "state (sk (dataRead v i c bs err w)) = state (sk w)" "conn (sk (dataRead v i c bs err w)) = conn (sk w)"
  "handlers (sk (dataRead v i c bs err w)) = handlers (sk w)" "sent (sk (dataRead v i c bs err w)) = sent (sk w)"
  "cancelled (sk (dataRead v i c bs err w)) = cancelled (sk w)"
  "destroyOnce (sk (dataRead v i c bs err w)) = destroyOnce (sk w)"
  by (simp_all add: dataRead_def Let_def split: option.split)

lemma dataRead_effects [simp]:
  "settled (sk (dataRead v i c bs err w)) = settled (sk w)"
  "connectOpts (sk (dataRead v i c bs err w)) = connectOpts (sk w)"
  by (simp_all add: dataRead_def Let_def bufferFilled_def bufferGet_def gotBytes_def addCounterMetrics_def push_def
      netcall_def ticked_def split: option.split)

lemma dataRead_pcs:
  "\<exists>k. pcs (dataRead v i c bs err w) = (pcs w)(i := k) \<and>
     (k = ReadCheck err \<or> (\<exists>cb. k = Sending cb (ReadCheck err) \<and> cbEvent cb = ''data''))"
  by (auto simp: dataRead_def Let_def dest: prepareCallback_event split: option.split)

definition pcs_inv :: "('h, 'ts) world \<Rightarrow> bool" where
  "pcs_inv w \<longleftrightarrow> (\<forall>i. wf_pc (pcs w i))"

lemma pcs_inv_goto: "pcs_inv w \<Longrightarrow> wf_pc k \<Longrightarrow> pcs_inv (goto i k w)"
  by (simp add: pcs_inv_def)

lemma pcs_inv_upd [simp]:
  "pcs_inv (onSock f w) = pcs_inv w" "pcs_inv (w\<lparr>sk := a\<rparr>) = pcs_inv w" "pcs_inv (w\<lparr>lock := b\<rparr>) = pcs_inv w"
  "pcs_inv (w\<lparr>onceSt := c\<rparr>) = pcs_inv w" "pcs_inv (w\<lparr>loopAlive := d\<rparr>) = pcs_inv w"
  "pcs_inv (w\<lparr>vuDone := e\<rparr>) = pcs_inv w" "pcs_inv (w\<lparr>ran := f'\<rparr>) = pcs_inv w" "pcs_inv (w\<lparr>running := g\<rparr>) = pcs_inv w"
  "pcs_inv (w\<lparr>promised := p\<rparr>) = pcs_inv w"
  by (simp_all add: pcs_inv_def)

lemma at_wf: "pcs_inv w \<Longrightarrow> pcs w i = k \<Longrightarrow> wf_pc k"
  unfolding pcs_inv_def by blast

lemma continuations:
  assumes "pcs_inv w"
  shows "pcs w i = Sending cb k \<Longrightarrow> returns_to (cbEvent cb) k" "pcs w i = Failing p e m ts k \<Longrightarrow> base k"
    "pcs w i = Rejecting p e m k \<Longrightarrow> base k" "pcs w i = DestroyEnter k \<Longrightarrow> final k"
    "pcs w i = DestroyLock k \<Longrightarrow> final k" "pcs w i = DestroyClose r k \<Longrightarrow> final k"
    "pcs w i = DestroyFire k \<Longrightarrow> final k" "pcs w i = DestroyCancel k \<Longrightarrow> final k"
  using at_wf [OF assms, of i] by simp_all

lemma dataRead_wf: "pcs_inv w \<Longrightarrow> pcs_inv (dataRead v i c bs err w)"
  using dataRead_pcs [of v i c bs err w] by (auto simp: pcs_inv_def)

lemma pcs_inv_step: "step G v sb w w' \<Longrightarrow> pcs_inv w \<Longrightarrow> pcs_inv w'"
  by (induction rule: step.induct)
    (auto simp: dataRead_wf dest: continuations intro: returns_to_wf base_wf final_wf intro!: pcs_inv_goto)

section \<open>The mutex\<close>

text \<open>
  The mutex is held exactly by the goroutine that is connecting, and the socket is
  \<open>opening\<close> exactly while it is held.
\<close>

definition lock_inv :: "('h, 'ts) world \<Rightarrow> bool" where
  "lock_inv w \<longleftrightarrow> (\<forall>i. lock w = Some i \<longleftrightarrow> holds_lock (pcs w i)) \<and> (state (sk w) = Opening \<longleftrightarrow> lock w \<noteq> None)"

lemma not_holds_lock:
  "final k \<Longrightarrow> holds_lock k = False" "base k \<Longrightarrow> holds_lock k = False" "returns_to ev k \<Longrightarrow> holds_lock k = False"
  by (cases k; simp)+

lemma firing_holds_lock [simp]: "holds_lock k = False \<Longrightarrow> holds_lock (firing ev a s k) = False"
  by (rule firing_cases [of ev a s k]) simp_all

lemma afterRead_not_holds_lock [simp]: "\<not> holds_lock (afterRead v err s)"
  by (simp add: afterRead_def split: option.split)

lemma resolve_stateD: "addDurationMetricsFor v m ts (resolve v co) s = (e, s1) \<Longrightarrow> state s1 = state s"
proof -
  assume "addDurationMetricsFor v m ts (resolve v co) s = (e, s1)"
  moreover have "state (snd (addDurationMetricsFor v m ts (resolve v co) s)) = state s"
    by (simp add: addDurationMetricsFor_fields) (auto simp: resolve_def split: sum.split)
  ultimately show ?thesis by simp
qed

lemma dialed_okD: "dialed v co ts s = (None, s1) \<Longrightarrow> state s1 = Open \<and> conn s1 \<noteq> None"
  using dialed_ok [of v co ts s] by simp

lemma connectPrepareD: "connectPrepare sb a h s = (e, s1) \<Longrightarrow> s1 = s \<or> (\<exists>co. s1 = s\<lparr>connectOpts := Some co\<rparr>)"
  using connectPrepare_cases [of sb a h s] by auto

lemma connectPrepare_state:
  assumes "connectPrepare sb a h s = (e, s1)"
  shows "state s1 = state s" "conn s1 = conn s" "handlers s1 = handlers s" "sent s1 = sent s"
    "cancelled s1 = cancelled s" "destroyOnce s1 = destroyOnce s"
  using connectPrepareD [OF assms] by auto

lemma lock_keep:
  "lock_inv w \<Longrightarrow> lock w' = lock w \<Longrightarrow> state (sk w') = state (sk w) \<Longrightarrow>
   (\<And>i. holds_lock (pcs w' i) = holds_lock (pcs w i)) \<Longrightarrow> lock_inv w'"
  by (simp add: lock_inv_def)

lemma unlocked_continuations:
  assumes "pcs_inv w"
  shows "pcs w i = Sending cb k \<Longrightarrow> holds_lock k = False" "pcs w i = Failing p e m ts k \<Longrightarrow> holds_lock k = False"
    "pcs w i = Rejecting p e m k \<Longrightarrow> holds_lock k = False" "pcs w i = DestroyEnter k \<Longrightarrow> holds_lock k = False"
    "pcs w i = DestroyLock k \<Longrightarrow> holds_lock k = False" "pcs w i = DestroyClose r k \<Longrightarrow> holds_lock k = False"
    "pcs w i = DestroyFire k \<Longrightarrow> holds_lock k = False" "pcs w i = DestroyCancel k \<Longrightarrow> holds_lock k = False"
  by (rule not_holds_lock, erule continuations [OF assms])+

lemma lock_inv_upd [simp]:
  "lock_inv (w\<lparr>onceSt := c\<rparr>) = lock_inv w" "lock_inv (w\<lparr>loopAlive := d\<rparr>) = lock_inv w"
  "lock_inv (w\<lparr>vuDone := e\<rparr>) = lock_inv w" "lock_inv (w\<lparr>ran := f'\<rparr>) = lock_inv w" "lock_inv (w\<lparr>running := g\<rparr>) = lock_inv w"
  "lock_inv (w\<lparr>promised := p\<rparr>) = lock_inv w"
  by (simp_all add: lock_inv_def)

lemma on_state [simp]: "state (on e h s) = state s" "conn (on e h s) = conn s" "sent (on e h s) = sent s"
  "cancelled (on e h s) = cancelled s" "destroyOnce (on e h s) = destroyOnce s"
  by (simp_all add: on_def)

lemma setTimeout_state [simp]: "state (snd (setTimeout v ms s)) = state s" "conn (snd (setTimeout v ms s)) = conn s"
  "handlers (snd (setTimeout v ms s)) = handlers s" "sent (snd (setTimeout v ms s)) = sent s"
  "cancelled (snd (setTimeout v ms s)) = cancelled s" "destroyOnce (snd (setTimeout v ms s)) = destroyOnce s"
  by (auto simp: setTimeout_def Let_def netcall_def ticked_def split: option.split)

lemma wrote_state [simp]: "state (wrote c bs n d err s) = state s" "conn (wrote c bs n d err s) = conn s"
  "handlers (wrote c bs n d err s) = handlers s" "sent (wrote c bs n d err s) = sent s"
  "cancelled (wrote c bs n d err s) = cancelled s" "destroyOnce (wrote c bs n d err s) = destroyOnce s"
  by (simp_all add: wrote_def netcall_def)

lemma dataRead_lock:
  assumes "lock_inv w" "\<not> holds_lock (pcs w i)"
  shows "lock_inv (dataRead v i c bs err w)"
proof -
  obtain k where "pcs (dataRead v i c bs err w) = (pcs w)(i := k)" "\<not> holds_lock k"
    using dataRead_pcs [of v i c bs err w] by fastforce
  with assms show ?thesis by (simp add: lock_inv_def)
qed

lemma release_lock:
  assumes "lock_inv w" "holds_lock (pcs w i)" "\<not> holds_lock k" "state s \<noteq> Opening"
  shows "lock_inv (goto i k (w\<lparr>lock := None, sk := s\<rparr>))"
proof -
  have "lock w = Some i" using assms(1,2) by (simp add: lock_inv_def)
  then have "\<not> holds_lock (pcs w j)" if "j \<noteq> i" for j
    using assms(1) that by (simp add: lock_inv_def) (metis option.inject)
  then show ?thesis using assms(3,4) by (simp add: lock_inv_def)
qed

lemma take_lock:
  assumes "lock_inv w" "lock w = None" "holds_lock k" "state s = Opening"
  shows "lock_inv (goto i k (w\<lparr>lock := Some i, sk := s\<rparr>))"
proof -
  have "\<not> holds_lock (pcs w j)" for j using assms(1,2) by (simp add: lock_inv_def)
  then show ?thesis using assms(3,4) by (simp add: lock_inv_def)
qed

lemma lock_inv_step: "step G v sb w w' \<Longrightarrow> pcs_inv w \<Longrightarrow> lock_inv w \<Longrightarrow> lock_inv w'"
proof (induction rule: step.induct)
  case (conn_lock w i p)
  then show ?case by (simp add: take_lock)
next
  case (destroy_lock w i k)
  then show ?case by (simp add: lock_inv_def destroyLocked_state)
next
  case js_connect
  then show ?case by - (erule lock_keep; simp add: connectPrepare_state)
next
  case js_connect_err
  then show ?case by - (erule lock_keep; simp add: connectPrepare_state)
next
  case (read_data w i c bs err)
  then show ?case by (simp add: dataRead_lock)
next
  case (conn_resolve w i p ts co s1)
  then show ?case by - (erule lock_keep; simp add: resolve_stateD)
next
  case (conn_resolve_err w i p ts co e s1)
  then show ?case by (simp add: release_lock)
next
  case (conn_dial w i p ts co s1)
  then show ?case by (auto intro!: release_lock dest!: dialed_okD)
next
  case (conn_dial_err w i p ts co e s1)
  then show ?case by (simp add: release_lock)
qed (erule lock_keep; (frule (1) unlocked_continuations)?; simp; fail)+

lemma lock_inv_free: "lock_inv w \<Longrightarrow> lock w = None \<Longrightarrow> state (sk w) \<noteq> Opening"
  by (simp add: lock_inv_def)

end
