(* ===== verification/Ledger.thy ===== *)
theory Ledger
  imports Prelude
begin

text \<open>
  Obligations: things numbered in the order in which they come into being (promises, accepted
  connections), each of which some goroutine has to discharge exactly once. \<open>own i\<close> is what
  goroutine \<open>i\<close> still has to discharge, \<open>paid\<close> what has been discharged, \<open>n\<close> how many there are.
  Two machines share these facts: that of a socket, for its promises, and that of the echo server,
  for its connections.
\<close>

definition ledger :: "(nat \<rightharpoonup> nat) \<Rightarrow> nat list \<Rightarrow> nat \<Rightarrow> bool" where
  "ledger own paid n \<longleftrightarrow> distinct paid \<and> inj_on own (dom own) \<and>
     Map.ran own \<inter> set paid = {} \<and> Map.ran own \<union> set paid = {..<n}"

lemma ledger_empty: "ledger (\<lambda>_. None) [] 0"
  by (simp add: ledger_def Map.ran_def)

lemma inj_upd_fresh:
  assumes "inj_on m (dom m)" "p \<notin> Map.ran m" "m i = None"
  shows "inj_on (m(i \<mapsto> p)) (dom (m(i \<mapsto> p)))" "Map.ran (m(i \<mapsto> p)) = insert p (Map.ran m)"
proof -
  show "inj_on (m(i \<mapsto> p)) (dom (m(i \<mapsto> p)))"
    using assms by (auto simp: inj_on_def dom_def Map.ran_def)
qed (use assms(3) in simp)

lemma inj_upd_None:
  assumes "inj_on m (dom m)" "m i = Some p"
  shows "inj_on (m(i := None)) (dom (m(i := None)))" "Map.ran (m(i := None)) = Map.ran m - {p}"
proof -
  have u: "m j = Some p \<Longrightarrow> j = i" for j using assms by (metis domI inj_onD)
  show "inj_on (m(i := None)) (dom (m(i := None)))"
    using assms(1) by (rule inj_on_subset [THEN inj_on_cong [THEN iffD1, rotated]]) auto
  have "Map.ran (m(i := None)) = {q. \<exists>j. j \<noteq> i \<and> m j = Some q}"
    unfolding Map.ran_def by (rule Collect_cong) (metis fun_upd_apply option.distinct(1))
  also have "\<dots> = Map.ran m - {p}"
  proof (intro equalityI subsetI)
    fix q
    assume "q \<in> {q. \<exists>j. j \<noteq> i \<and> m j = Some q}"
    then show "q \<in> Map.ran m - {p}" using u by (auto intro: ranI)
  next
    fix q
    assume "q \<in> Map.ran m - {p}"
    then obtain j where "m j = Some q" "q \<noteq> p" by (auto simp: Map.ran_def)
    moreover from this have "j \<noteq> i" using assms(2) by auto
    ultimately show "q \<in> {q. \<exists>j. j \<noteq> i \<and> m j = Some q}" by blast
  qed
  finally show "Map.ran (m(i := None)) = Map.ran m - {p}" .
qed

lemma ledger_new:
  assumes "ledger own paid n" "own i = None"
  shows "ledger (own(i \<mapsto> n)) paid (Suc n)"
proof -
  have "n \<notin> Map.ran own" "n \<notin> set paid" using assms(1) by (auto simp: ledger_def)
  then show ?thesis
    using assms inj_upd_fresh [of own n i] by (simp add: ledger_def lessThan_Suc)
qed

lemma ledger_pay:
  assumes "ledger own paid n" "own i = Some p"
  shows "ledger (own(i := None)) (paid @ [p]) n"
proof -
  have p: "p \<in> Map.ran own" using assms(2) by (rule ranI)
  then have "p \<notin> set paid" using assms(1) by (auto simp: ledger_def)
  then show ?thesis
    using inj_upd_None [of own i p] assms p unfolding ledger_def by (simp add: insert_absorb) blast
qed

lemma ledger_pass:
  assumes "ledger own paid n" "own i = Some p" "own j = None" "i \<noteq> j"
  shows "ledger (own(i := None, j \<mapsto> p)) paid n"
proof -
  have inj: "inj_on own (dom own)" using assms(1) by (simp add: ledger_def)
  note drop = inj_upd_None [OF inj assms(2)]
  have p: "p \<in> Map.ran own" using assms(2) by (rule ranI)
  show ?thesis
    using assms p inj_upd_fresh [of "own(i := None)" p j] drop by (simp add: ledger_def insert_absorb)
qed

lemma ledger_owner:
  assumes "ledger own paid n" "p < n"
  shows "(p \<in> set paid) \<noteq> (\<exists>!i. own i = Some p)"
proof -
  have "i = j" if "own i = Some p" "own j = Some p" for i j
    using assms(1) that by (auto simp: ledger_def dest!: inj_onD [of own _ i j] simp: domI)
  then have "(\<exists>!i. own i = Some p) \<longleftrightarrow> p \<in> Map.ran own" by (auto simp: Map.ran_def)
  moreover have "p \<in> Map.ran own \<union> set paid" "p \<notin> Map.ran own \<inter> set paid"
    using assms by (auto simp: ledger_def)
  ultimately show ?thesis by blast
qed

lemma ledger_unpaid: "ledger own paid n \<Longrightarrow> own i = Some p \<Longrightarrow> p < n \<and> p \<notin> set paid"
  unfolding ledger_def by (metis IntI UnI1 empty_iff lessThan_iff ranI)

lemma finite_upd: "finite {i. f i \<noteq> c} \<Longrightarrow> finite {i. (f(j := x)) i \<noteq> c}"
  by (rule finite_subset [of _ "insert j {i. f i \<noteq> c}"]) auto

section \<open>Counting goroutines\<close>

text \<open>
  The weight of a family of goroutines: each one in a state other than the unused state \<open>c\<close> counts
  \<open>g\<close> of its state. Moving one goroutine changes the weight by the difference.
\<close>

definition weight :: "'p \<Rightarrow> ('p \<Rightarrow> nat) \<Rightarrow> (nat \<Rightarrow> 'p) \<Rightarrow> nat" where
  "weight c g f = (\<Sum>i | f i \<noteq> c. g (f i))"

lemma weight_superset:
  assumes "finite A" "{i. f i \<noteq> c} \<subseteq> A" "g c = 0"
  shows "weight c g f = (\<Sum>i \<in> A. g (f i))"
  unfolding weight_def by (rule sum.mono_neutral_left) (use assms in auto)

lemma weight_upd:
  assumes "finite {i. f i \<noteq> c}" "g c = 0"
  shows "weight c g (f(j := k)) + g (f j) = weight c g f + g k"
proof -
  let ?A = "insert j {i. f i \<noteq> c}"
  have A: "finite ?A" using assms(1) by simp
  have "weight c g (f(j := k)) = (\<Sum>i \<in> ?A. g ((f(j := k)) i))"
    by (rule weight_superset) (use A assms(2) in auto)
  also have "\<dots> = g k + (\<Sum>i \<in> ?A - {j}. g (f i))"
    unfolding sum.remove [OF A insertI1] by simp
  finally have "weight c g (f(j := k)) = g k + (\<Sum>i \<in> ?A - {j}. g (f i))" .
  moreover have "weight c g f = g (f j) + (\<Sum>i \<in> ?A - {j}. g (f i))"
    using weight_superset [where g = g, OF A subset_insertI assms(2)] sum.remove [OF A insertI1, of "\<lambda>i. g (f i)"] by simp
  ultimately show ?thesis by simp
qed

lemma weight_zero: "finite {i. f i \<noteq> c} \<Longrightarrow> g c = 0 \<Longrightarrow> weight c g f = 0 \<longleftrightarrow> (\<forall>i. g (f i) = 0)"
  unfolding weight_def by (subst sum_eq_0_iff) (auto, metis)

lemma weight_move:
  assumes "finite {i. f i \<noteq> c}" "g c = 0" "g k < g (f j)"
  shows "weight c g (f(j := k)) < weight c g f"
  using weight_upd [where g = g, OF assms(1,2), of j k] assms(3) by simp

lemma weight_int:
  assumes "finite {i. f i \<noteq> c}" "g c = 0"
  shows "int (weight c g (f(j := k))) = int (weight c g f) - int (g (f j)) + int (g k)"
  using weight_upd [where g = g, OF assms, of j k] by simp

end
