(* ===== verification/Lifecycle.thy ===== *)
theory Lifecycle
  imports Machine Ledger
begin

text \<open>
  What holds in every world the goroutines of a socket can reach, whatever the scheduler does:
  the socket stays consistent, teardown runs at most once and queues at most one \<open>close\<close>
  callback, every promise is settled at most once and is never forgotten, and the events of a
  reader come after \<open>connect\<close>.
\<close>

section \<open>What the segments leave alone\<close>

lemma effect_frames [simp]:
  "sent (ticked s) = sent s" "settled (ticked s) = settled s"
  "sent (netcall op s) = sent s" "settled (netcall op s) = settled s"
  "sent (go g s) = sent s" "settled (go g s) = settled s"
  "sent (push v m ts x s) = sent s" "settled (push v m ts x s) = settled s"
  "sent (settle p out s) = sent s" "settled (settle p out s) = settled s @ [(p, out)]"
  "sent (sendCallback cb s) = sent s @ [cb]" "settled (sendCallback cb s) = settled s"
  by (simp_all add: ticked_def netcall_def go_def push_def settle_def sendCallback_def)

lemma metric_frames [simp]:
  "sent (addErrorMetrics v ts s) = sent s" "settled (addErrorMetrics v ts s) = settled s"
  "sent (addCounterMetrics v m ts s) = sent s" "settled (addCounterMetrics v m ts s) = settled s"
  "sent (addDurationMetrics v d m ts s) = sent s" "settled (addDurationMetrics v d m ts s) = settled s"
  "sent (writeMetrics v bs n e opts s) = sent s" "settled (writeMetrics v bs n e opts s) = settled s"
  by (simp_all add: addErrorMetrics_def addCounterMetrics_def addDurationMetrics_def writeMetrics_def Let_def)

lemma segment_frames [simp]:
  "sent (readBefore v c d s) = sent s" "settled (readBefore v c d s) = settled s"
  "sent (destroyClose v r s) = sent s" "settled (destroyClose v r s) = settled s"
  "settled (wrote c bs n d' err s) = settled s" "connectOpts (wrote c bs n d' err s) = connectOpts s"
  "settled (on ev h s) = settled s" "connectOpts (on ev h s) = connectOpts s"
  by (auto simp: readBefore_def destroyClose_def wrote_def on_def Let_def split: option.split prod.split)

lemma setTimeout_frames [simp]:
  "settled (snd (setTimeout v ms s)) = settled s" "connectOpts (snd (setTimeout v ms s)) = connectOpts s"
  by (auto simp: setTimeout_def Let_def netcall_def ticked_def split: option.split)

lemma destroyLocked_frames [simp]:
  "settled (snd (destroyLocked v s)) = settled s" "connectOpts (snd (destroyLocked v s)) = connectOpts s"
  "cancelled (snd (destroyLocked v s)) = cancelled s" "destroyOnce (snd (destroyLocked v s)) = destroyOnce s"
  by (simp_all add: destroyLocked_def Let_def)

lemma resolving_frames:
  assumes "addDurationMetricsFor v m ts (resolve v co) s = (e, s1)"
  shows "sent s1 = sent s" "settled s1 = settled s" "handlers s1 = handlers s" "cancelled s1 = cancelled s"
    "destroyOnce s1 = destroyOnce s" "connectOpts s1 = connectOpts s" "conn s1 = conn s"
proof -
  have "untouched s s1"
    using addDurationMetricsFor_untouched [where fn = "resolve v co" and s = s, OF resolve_untouched] assms
    by (metis snd_conv)
  then show "sent s1 = sent s" "settled s1 = settled s" "handlers s1 = handlers s" "cancelled s1 = cancelled s"
    "destroyOnce s1 = destroyOnce s" "connectOpts s1 = connectOpts s"
    by (simp_all add: untouched_def)
  have "conn (snd (resolve v co t)) = conn t" for t :: "('a, 'b) rt"
    by (auto simp: resolve_def split: sum.split)
  then show "conn s1 = conn s"
    using addDurationMetricsFor_fields(2) [of v m ts "resolve v co" s] assms by simp
qed

lemma dialed_frames:
  assumes "dialed v co ts s = (e, s1)"
  shows "sent s1 = sent s" "settled s1 = settled s" "handlers s1 = handlers s" "cancelled s1 = cancelled s"
    "destroyOnce s1 = destroyOnce s" "connectOpts s1 = connectOpts s"
  using dialed_untouched [of s v co ts] assms by (simp_all add: untouched_def)

lemma connectPrepare_frames:
  assumes "connectPrepare sb a h s = (e, s1)"
  shows "settled s1 = settled s" "connectOpts s \<noteq> None \<Longrightarrow> connectOpts s1 \<noteq> None"
  using connectPrepareD [OF assms] by auto

lemma connectPrepare_set: "connectPrepare sb a h s = (None, s1) \<Longrightarrow> connectOpts s1 \<noteq> None"
  by (auto simp: connectPrepare_def split: if_splits sum.splits)

lemmas step_frames = connectPrepare_state connectPrepare_frames resolving_frames dialed_frames resolve_stateD
  destroyLocked_state

section \<open>The socket\<close>

text \<open>The invariant of the socket, with the state it may be in while the mutex is held.\<close>

definition held_inv :: "('h, 'ts) rt \<Rightarrow> bool" where
  "held_inv s \<longleftrightarrow>
     (state s = Open \<longrightarrow> conn s \<noteq> None) \<and> (state s = Destroyed \<longrightarrow> conn s = None) \<and>
     (\<forall>e. handlers s e \<noteq> None \<longrightarrow> e \<in> events) \<and> (\<forall>e. handlers s e \<noteq> Some NotCallable) \<and>
     (cancelled s \<longleftrightarrow> destroyOnce s)"

lemma held_inv_sock_inv: "sock_inv s \<longleftrightarrow> held_inv s \<and> state s \<noteq> Opening"
  by (auto simp: held_inv_def sock_inv_def)

lemma held_keep:
  "held_inv s \<Longrightarrow> state t = state s \<Longrightarrow> conn t = conn s \<Longrightarrow> handlers t = handlers s \<Longrightarrow>
   cancelled t = cancelled s \<Longrightarrow> destroyOnce t = destroyOnce s \<Longrightarrow> held_inv t"
  by (simp add: held_inv_def)

lemma on_held: "held_inv s \<Longrightarrow> held_inv (on e h s)"
  by (auto simp: held_inv_def on_def)

lemma held_inv_step: "step G v sb w w' \<Longrightarrow> held_inv (sk w) \<Longrightarrow> held_inv (sk w')"
proof (induction rule: step.induct)
  case js_on
  then show ?case by (simp add: on_held)
next
  case conn_lock
  then show ?case by (simp add: held_inv_def)
next
  case conn_resolve_err
  then show ?case by (simp add: held_inv_def step_frames)
next
  case (conn_dial w i p ts co s1)
  then show ?case using dialed_okD [OF conn_dial.hyps(3)] by (simp add: held_inv_def step_frames)
next
  case conn_dial_err
  then show ?case by (simp add: held_inv_def step_frames)
next
  case destroy_lock
  then show ?case by (simp add: held_inv_def destroyLocked_state)
next
  case destroy_cancel
  then show ?case by (simp add: held_inv_def)
qed (erule held_keep; simp add: step_frames; fail)+

section \<open>Teardown runs once\<close>

text \<open>How far a goroutine is inside \<open>destroyOnce\<close>: not in it, before or after the \<open>close\<close> event is queued.\<close>

datatype destroying = Out | Before | After

fun stage :: "('h, 'ts) pc \<Rightarrow> destroying" where
  "stage (DestroyLock k) = Before"
| "stage (DestroyClose r k) = Before"
| "stage (DestroyFire k) = Before"
| "stage (DestroyCancel k) = After"
| "stage (Sending cb k) = (if stage k = After then Before else Out)"
| "stage _ = Out"

definition closes :: "('h, 'ts) rt \<Rightarrow> nat" where
  "closes s = length (filter (\<lambda>cb. cbEvent cb = ''close'') (sent s))"

definition once_inv :: "('h, 'ts) world \<Rightarrow> bool" where
  "once_inv w \<longleftrightarrow> (\<forall>i. stage (pcs w i) \<noteq> Out \<longleftrightarrow> onceSt w = Running i) \<and>
     (cancelled (sk w) \<longleftrightarrow> onceSt w = OnceDone) \<and> closes (sk w) \<le> 1 \<and>
     (onceSt w = Fresh \<longrightarrow> closes (sk w) = 0) \<and> (\<forall>i. stage (pcs w i) = Before \<longrightarrow> closes (sk w) = 0)"

lemma once_invD:
  assumes "once_inv w"
  shows "stage (pcs w i) \<noteq> Out \<longleftrightarrow> onceSt w = Running i" "cancelled (sk w) \<longleftrightarrow> onceSt w = OnceDone"
    "closes (sk w) \<le> 1" "onceSt w = Fresh \<Longrightarrow> closes (sk w) = 0" "stage (pcs w i) = Before \<Longrightarrow> closes (sk w) = 0"
  using assms by (auto simp: once_inv_def)

lemma stage_final: "final k \<Longrightarrow> stage k = Out" "base k \<Longrightarrow> stage k = Out"
  by (cases k; simp)+

lemma stage_returns: "returns_to ev k \<Longrightarrow> stage k = (if ev = ''close'' then After else Out)"
  by (cases k) auto

lemma stage_firing: "stage k = Out \<Longrightarrow> stage (firing ev a s k) = Out"
  by (rule firing_cases [of ev a s k]) simp_all

lemma stage_afterRead [simp]: "stage (afterRead v err s) = Out"
  by (simp add: afterRead_def stage_firing split: option.split)

lemma once_keep:
  "once_inv w \<Longrightarrow> onceSt w' = onceSt w \<Longrightarrow> closes (sk w') = closes (sk w) \<Longrightarrow> cancelled (sk w') = cancelled (sk w) \<Longrightarrow>
   (\<And>i. stage (pcs w' i) = stage (pcs w i)) \<Longrightarrow> once_inv w'"
  by (simp add: once_inv_def)

lemma once_owner:
  assumes "once_inv w" "stage (pcs w i) \<noteq> Out"
  shows "onceSt w = Running i" "j \<noteq> i \<Longrightarrow> stage (pcs w j) = Out"
  using assms(2) once_invD(1) [OF assms(1), of i] once_invD(1) [OF assms(1), of j] by auto

text \<open>The goroutine inside moves on from before the \<open>close\<close> event.\<close>

lemma once_move:
  assumes "once_inv w" "stage (pcs w i) = Before" "stage k \<noteq> Out" "onceSt w' = onceSt w" "pcs w' = (pcs w)(i := k)"
    "cancelled (sk w') = cancelled (sk w)" "closes (sk w') = 0 \<or> stage k = After \<and> closes (sk w') = 1"
  shows "once_inv w'"
proof -
  have r: "onceSt w = Running i" and o: "\<And>j. j \<noteq> i \<Longrightarrow> stage (pcs w j) = Out"
    using once_owner [of w i] assms(1,2) by auto
  show ?thesis
    using assms r by (auto simp: once_inv_def o)
qed

lemma stage_continuations:
  assumes "pcs_inv w"
  shows "pcs w i = Failing p e m ts k \<Longrightarrow> stage k = Out"
    "pcs w i = Rejecting p e m k \<Longrightarrow> stage k = Out" "pcs w i = DestroyEnter k \<Longrightarrow> stage k = Out"
    "pcs w i = DestroyCancel k \<Longrightarrow> stage k = Out"
  by (rule stage_final, erule continuations [OF assms])+

lemma once_sending:
  assumes "once_inv w" "pcs_inv w" "pcs w i = Sending cb k" "cancelled s = cancelled (sk w)"
    "sent s = sent (sk w) \<or> sent s = sent (sk w) @ [cb]"
  shows "once_inv (goto i k (w\<lparr>sk := s\<rparr>))"
proof (cases "cbEvent cb = ''close''")
  case True
  then have k: "stage k = After" "stage (pcs w i) = Before"
    using stage_returns [OF continuations(1) [OF assms(2,3)]] by (simp_all add: assms(3))
  then have "closes (sk w) = 0" using once_invD(5) [OF assms(1)] by blast
  then show ?thesis
    using k assms(4,5) True by (intro once_move [OF assms(1), of i k]) (auto simp: closes_def)
next
  case False
  then have k: "stage k = Out" "stage (pcs w i) = Out"
    using stage_returns [OF continuations(1) [OF assms(2,3)]] by (simp_all add: assms(3))
  moreover have "closes s = closes (sk w)" using assms(5) False by (auto simp: closes_def)
  ultimately show ?thesis
    using assms(4) by (intro once_keep [OF assms(1)]) simp_all
qed

lemma once_begin:
  assumes "once_inv w" "onceSt w = Fresh"
  shows "once_inv (goto i (DestroyLock k) (w\<lparr>onceSt := Running i\<rparr>))"
proof -
  have "stage (pcs w j) = Out" for j using once_invD(1) [OF assms(1), of j] assms(2) by simp
  then show ?thesis
    using once_invD(2,4) [OF assms(1)] assms(2) by (simp add: once_inv_def)
qed

lemma once_end:
  assumes "once_inv w" "pcs w i = DestroyCancel k" "stage k = Out"
  shows "once_inv (goto i k (w\<lparr>onceSt := OnceDone, sk := (sk w)\<lparr>cancelled := True, destroyOnce := True\<rparr>\<rparr>))"
proof -
  have o: "j \<noteq> i \<Longrightarrow> stage (pcs w j) = Out" for j
    using once_owner(2) [OF assms(1), of i j] assms(2) by simp
  show ?thesis
    using once_invD(3) [OF assms(1)] assms(3) by (auto simp: once_inv_def closes_def o)
qed

lemma once_inv_step: "step G v sb w w' \<Longrightarrow> pcs_inv w \<Longrightarrow> once_inv w \<Longrightarrow> once_inv w'"
proof (induction rule: step.induct)
  case (send w i cb k)
  then show ?case by (auto simp: onSock_def intro!: once_sending)
next
  case (send_abort w i cb k)
  then show ?case by (auto simp: onSock_def intro!: once_sending)
next
  case (read_data w i c bs err)
  obtain k where "pcs (dataRead v i c bs err w) = (pcs w)(i := k)" "stage k = Out"
    using dataRead_pcs [of v i c bs err w] by fastforce
  with read_data show ?case by - (erule once_keep; simp add: closes_def)
next
  case (fail w i p e m ts k s1)
  then show ?case by - (erule once_keep; simp add: closes_def stage_firing)
next
  case (conn_fire w i p ts)
  then show ?case by - (erule once_keep; simp add: closes_def stage_firing)
next
  case (destroy_first w i k)
  then show ?case by (simp add: once_begin)
next
  case (destroy_cancel w i k)
  then show ?case using once_end stage_continuations(4) by blast
next
  case (destroy_fire w i k)
  have "closes (sk w) = 0" using once_invD(5) [OF destroy_fire.prems(2), of i] destroy_fire.hyps by simp
  moreover have "stage (firing ''close'' [] (sk w) (DestroyCancel k)) \<noteq> Out"
    by (rule firing_cases [of "''close''" "[]" "sk w" "DestroyCancel k"]) simp_all
  ultimately show ?case
    using destroy_fire.hyps by (intro once_move [OF destroy_fire.prems(2), of i]) simp_all
qed (erule once_keep; (frule (1) stage_continuations)?; simp add: closes_def step_frames; fail)+

section \<open>Promises\<close>

text \<open>The promise a goroutine has still to settle.\<close>

fun owes :: "('h, 'ts) pc \<Rightarrow> nat option" where
  "owes (Sending cb k) = owes k"
| "owes (Failing p e m ts k) = p"
| "owes (Rejecting p e m k) = p"
| "owes (ConnStart p) = Some p"
| "owes (ConnResolve p ts) = Some p"
| "owes (ConnDial p ts) = Some p"
| "owes (ConnFire p ts) = Some p"
| "owes (ConnSpawn p ts) = Some p"
| "owes (ConnDone p ts) = Some p"
| "owes (WriteStart p bs opts) = Some p"
| "owes (WriteRun p c bs n opts) = Some p"
| "owes _ = None"

text \<open>
  A promise made is settled, once, or owed by exactly one goroutine.
\<close>

definition promise_inv :: "('h, 'ts) world \<Rightarrow> bool" where
  "promise_inv w \<longleftrightarrow> ledger (owes \<circ> pcs w) (map fst (settled (sk w))) (promised w)"

lemma owes_final: "final k \<Longrightarrow> owes k = None" "base k \<Longrightarrow> owes k = None"
  by (cases k; simp)+

lemma owes_continuations:
  assumes "pcs_inv w"
  shows "pcs w i = Failing p e m ts k \<Longrightarrow> owes k = None"
    "pcs w i = Rejecting p e m k \<Longrightarrow> owes k = None" "pcs w i = DestroyEnter k \<Longrightarrow> owes k = None"
    "pcs w i = DestroyCancel k \<Longrightarrow> owes k = None"
  by (rule owes_final, erule continuations [OF assms])+

lemma owes_firing [simp]: "owes (firing ev a s k) = owes k"
  by (rule firing_cases [of ev a s k]) simp_all

lemma owes_afterRead [simp]: "owes (afterRead v err s) = None"
  by (simp add: afterRead_def split: option.split)

lemma promise_keep:
  assumes "promise_inv w" "promised w' = promised w" "settled (sk w') = settled (sk w)"
    "\<And>i. owes (pcs w' i) = owes (pcs w i)"
  shows "promise_inv w'"
proof -
  have "owes \<circ> pcs w' = owes \<circ> pcs w" using assms(4) by auto
  then show ?thesis using assms(1-3) by (simp add: promise_inv_def)
qed

lemma promise_new:
  assumes "promise_inv w" "owes (pcs w i) = None" "owes k = Some (promised w)"
    "promised w' = Suc (promised w)" "settled (sk w') = settled (sk w)" "pcs w' = (pcs w)(i := k)"
  shows "promise_inv w'"
proof -
  have "owes \<circ> pcs w' = (owes \<circ> pcs w)(i \<mapsto> promised w)" using assms(3,6) by auto
  then show ?thesis using ledger_new [of "owes \<circ> pcs w" _ _ i] assms by (simp add: promise_inv_def)
qed

lemma promise_settled:
  assumes "promise_inv w" "owes (pcs w i) = Some p" "owes k = None"
    "promised w' = promised w" "settled (sk w') = settled (sk w) @ [(p, out)]" "pcs w' = (pcs w)(i := k)"
  shows "promise_inv w'"
proof -
  have "owes \<circ> pcs w' = (owes \<circ> pcs w)(i := None)" using assms(3,6) by auto
  then show ?thesis using ledger_pay [of "owes \<circ> pcs w" _ _ i p] assms by (simp add: promise_inv_def)
qed

lemma promise_inv_step: "step G v sb w w' \<Longrightarrow> pcs_inv w \<Longrightarrow> promise_inv w \<Longrightarrow> promise_inv w'"
proof (induction rule: step.induct)
  case (js_connect w a h s1 j p)
  then show ?case by (intro promise_new [OF js_connect.prems(2), of j "ConnStart p"]) (simp_all add: step_frames)
next
  case (js_connect_err w a h e s1 p)
  then show ?case
    by (intro promise_new [OF js_connect_err.prems(2), of 0 "Failing (Some p) e ''connect'' (tags v s1) JSReady"])
      (simp_all add: step_frames)
next
  case (js_write w a wo bs opts j p)
  then show ?case by (intro promise_new [OF js_write.prems(2), of j "WriteStart p bs opts"]) simp_all
next
  case (js_write_err w a wo e opts p)
  then show ?case
    by (intro promise_new [OF js_write_err.prems(2), of 0
          "Failing (Some p) e ''write'' (addToTagSet v (currentTags v (sk w)) (woTags opts)) JSReady"]) simp_all
next
  case (reject w i p e m k)
  then show ?case
    using owes_continuations(2) [OF reject.prems(1) reject.hyps(1)]
    by (intro promise_settled [OF reject.prems(2), of i p k]) simp_all
next
  case (conn_done w i p ts)
  then show ?case by (intro promise_settled [OF conn_done.prems(2), of i p Ended]) simp_all
next
  case (write_start_none w i p bs opts)
  then show ?case by (intro promise_settled [OF write_start_none.prems(2), of i p Ended]) simp_all
next
  case (write_fail w i p c bs n opts d e e')
  then show ?case by (intro promise_settled [OF write_fail.prems(2), of i p Ended]) simp_all
next
  case (write_zero w i p c bs n opts e')
  then show ?case by (intro promise_settled [OF write_zero.prems(2), of i p Ended]) simp_all
next
  case (write_done w i p c bs n opts)
  then show ?case by (intro promise_settled [OF write_done.prems(2), of i p Ended]) simp_all
next
  case (read_data w i c bs err)
  obtain k where "pcs (dataRead v i c bs err w) = (pcs w)(i := k)" "owes k = None"
    using dataRead_pcs [of v i c bs err w] by fastforce
  with read_data show ?case by - (erule promise_keep; simp)
qed (erule promise_keep; (frule (1) owes_continuations)?; simp add: step_frames; fail)+

section \<open>All of it\<close>

text \<open>A goroutine that connects finds the options of \<open>connect\<close>; only finitely many goroutines ever start.\<close>

fun connecting :: "('h, 'ts) pc \<Rightarrow> bool" where
  "connecting (ConnStart p) = True"
| "connecting (ConnResolve p ts) = True"
| "connecting (ConnDial p ts) = True"
| "connecting _ = False"

definition busy :: "('h, 'ts) world \<Rightarrow> nat set" where
  "busy w = {i. pcs w i \<noteq> Unused}"

definition spawn_inv :: "('h, 'ts) world \<Rightarrow> bool" where
  "spawn_inv w \<longleftrightarrow> finite (busy w) \<and> ((\<exists>i. connecting (pcs w i)) \<longrightarrow> connectOpts (sk w) \<noteq> None)"

lemma busy_goto [simp]: "finite (busy w) \<Longrightarrow> finite (busy (goto i k w))"
  unfolding busy_def goto_simps by (rule finite_upd)

lemma busy_upd [simp]:
  "busy (onSock f w) = busy w" "busy (w\<lparr>sk := a\<rparr>) = busy w" "busy (w\<lparr>lock := b\<rparr>) = busy w"
  "busy (w\<lparr>onceSt := c\<rparr>) = busy w" "busy (w\<lparr>loopAlive := d\<rparr>) = busy w" "busy (w\<lparr>vuDone := e\<rparr>) = busy w"
  "busy (w\<lparr>ran := f'\<rparr>) = busy w" "busy (w\<lparr>running := g\<rparr>) = busy w" "busy (w\<lparr>promised := p\<rparr>) = busy w"
  by (simp_all add: busy_def)

lemma busy_dataRead [simp]: "finite (busy w) \<Longrightarrow> finite (busy (dataRead v i c bs err w))"
  by (simp add: dataRead_def Let_def split: option.split)

lemma spawn_keep:
  "spawn_inv w \<Longrightarrow> (connectOpts (sk w) \<noteq> None \<Longrightarrow> connectOpts (sk w') \<noteq> None) \<Longrightarrow>
   (finite (busy w) \<Longrightarrow> finite (busy w')) \<Longrightarrow>
   (\<And>i. connecting (pcs w' i) \<Longrightarrow> connecting (pcs w i)) \<Longrightarrow> spawn_inv w'"
  unfolding spawn_inv_def by blast

lemma not_connecting: "final k \<Longrightarrow> \<not> connecting k" "base k \<Longrightarrow> \<not> connecting k" "returns_to ev k \<Longrightarrow> \<not> connecting k"
  by (cases k; simp)+

lemma connecting_continuations:
  assumes "pcs_inv w"
  shows "pcs w i = Sending cb k \<Longrightarrow> \<not> connecting k" "pcs w i = Failing p e m ts k \<Longrightarrow> \<not> connecting k"
    "pcs w i = Rejecting p e m k \<Longrightarrow> \<not> connecting k" "pcs w i = DestroyEnter k \<Longrightarrow> \<not> connecting k"
    "pcs w i = DestroyCancel k \<Longrightarrow> \<not> connecting k"
  by (rule not_connecting, erule continuations [OF assms])+

lemma connecting_firing [simp]: "\<not> connecting k \<Longrightarrow> \<not> connecting (firing ev a s k)"
  by (rule firing_cases [of ev a s k]) simp_all

lemma connecting_afterRead [simp]: "\<not> connecting (afterRead v err s)"
  by (simp add: afterRead_def split: option.split)

lemma spawn_inv_step: "step G v sb w w' \<Longrightarrow> pcs_inv w \<Longrightarrow> spawn_inv w \<Longrightarrow> spawn_inv w'"
proof (induction rule: step.induct)
  case (js_connect w a h s1 j p)
  then show ?case
    using connectPrepare_set [OF js_connect.hyps(2)] by (simp add: spawn_inv_def)
next
  case (js_connect_err w a h e s1 p)
  then show ?case
    using connectPrepare_frames(2) [OF js_connect_err.hyps(2)] by - (erule spawn_keep; simp split: if_splits)
next
  case (read_data w i c bs err)
  obtain k where "pcs (dataRead v i c bs err w) = (pcs w)(i := k)" "\<not> connecting k"
    using dataRead_pcs [of v i c bs err w] by fastforce
  with read_data show ?case by - (erule spawn_keep; simp split: if_splits)
qed (erule spawn_keep; (frule (1) connecting_continuations)?; simp add: step_frames split: if_splits; fail)+

definition mach_inv :: "('h, 'ts) world \<Rightarrow> bool" where
  "mach_inv w \<longleftrightarrow> pcs_inv w \<and> lock_inv w \<and> held_inv (sk w) \<and> once_inv w \<and> promise_inv w \<and> spawn_inv w"

lemma mach_inv_start: "mach_inv (start m :: ('h, 'ts) world)"
proof -
  define w where "w = (start m :: ('h, 'ts) world)"
  have "owes \<circ> pcs w = Map.empty" "settled (sk w) = []" "promised w = 0"
    by (auto simp: w_def start_def newSocket_def)
  then have "promise_inv w" unfolding promise_inv_def by (simp add: ledger_empty)
  moreover have "spawn_inv w" "pcs_inv w" "lock_inv w" "held_inv (sk w)" "once_inv w"
    by (simp_all add: spawn_inv_def pcs_inv_def lock_inv_def held_inv_def once_inv_def closes_def busy_def w_def start_def newSocket_def)
  ultimately show ?thesis by (simp add: mach_inv_def w_def)
qed

lemma mach_inv_step: "mach_inv w \<Longrightarrow> step G v sb w w' \<Longrightarrow> mach_inv w'"
  unfolding mach_inv_def
  by (blast intro: pcs_inv_step lock_inv_step held_inv_step once_inv_step promise_inv_step spawn_inv_step)

interpretation machine: transition_system "\<lambda>w. w = start m" "step G v sb" mach_inv
  by unfold_locales (simp add: mach_inv_start, rule mach_inv_step)

lemma mach_invD:
  assumes "mach_inv w"
  shows "pcs_inv w" "lock_inv w" "held_inv (sk w)" "once_inv w" "promise_inv w" "spawn_inv w"
  using assms by (simp_all add: mach_inv_def)

section \<open>Progress\<close>

text \<open>
  A goroutine that has not finished can move, or another that has not finished can, as long as
  the loop goroutine receives or the context of the virtual user is done.
\<close>

fun idle :: "('h, 'ts) pc \<Rightarrow> bool" where
  "idle Unused = True"
| "idle JSReady = True"
| "idle Ended = True"
| "idle _ = False"

definition can_move :: "golib \<Rightarrow> 'ts vu \<Rightarrow> 'v sobek \<Rightarrow> ('h, 'ts) world \<Rightarrow> nat \<Rightarrow> bool" where
  "can_move G v sb w i \<longleftrightarrow> \<not> idle (pcs w i) \<and> (\<exists>w'. step G v sb w w' \<and> pcs w' i \<noteq> pcs w i)"

lemma can_moveI: "step G v sb w w' \<Longrightarrow> \<not> idle (pcs w i) \<Longrightarrow> pcs w' i \<noteq> pcs w i \<Longrightarrow> can_move G v sb w i"
  unfolding can_move_def by blast

lemma holder_moves:
  assumes "mach_inv w" "holds_lock (pcs w i)"
  shows "can_move G v sb w i"
proof -
  obtain co where co: "connectOpts (sk w) = Some co"
    using mach_invD(6) [OF assms(1)] assms(2) unfolding spawn_inv_def
    by (metis connecting.simps(2,3) holds_lock.elims(2) not_None_eq)
  show ?thesis
  proof (cases "pcs w i")
    case (ConnResolve p ts)
    obtain r s1 where r: "addDurationMetricsFor v (tcpResolving (metrics (sk w))) ts (resolve v co) (sk w) = (r, s1)"
      by fastforce
    show ?thesis
    proof (cases r)
      case None
      then show ?thesis by (intro can_moveI [OF conn_resolve [OF ConnResolve co]]) (use r ConnResolve in simp_all)
    next
      case (Some e)
      then show ?thesis by (intro can_moveI [OF conn_resolve_err [OF ConnResolve co]]) (use r ConnResolve in simp_all)
    qed
  next
    case (ConnDial p ts)
    obtain r s1 where r: "dialed v co ts (sk w) = (r, s1)" by fastforce
    show ?thesis
    proof (cases r)
      case None
      then show ?thesis by (intro can_moveI [OF conn_dial [OF ConnDial co]]) (use r ConnDial in simp_all)
    next
      case (Some e)
      then show ?thesis by (intro can_moveI [OF conn_dial_err [OF ConnDial co]]) (use r ConnDial in simp_all)
    qed
  qed (use assms(2) in simp_all)
qed

lemma waiting_for_lock:
  assumes "mach_inv w" "lock w = None \<Longrightarrow> can_move G v sb w i"
  shows "\<exists>j. can_move G v sb w j"
  using assms holder_moves [OF assms(1)] mach_invD(2) [OF assms(1)] unfolding lock_inv_def
  by (metis option.exhaust)

lemma continuation_differs:
  "returns_to ev k \<Longrightarrow> k \<noteq> Sending cb k'" "base k \<Longrightarrow> k \<noteq> Rejecting p e m k'" "final k \<Longrightarrow> k \<noteq> DestroyEnter k'"
  "final k \<Longrightarrow> k \<noteq> DestroyCancel k'"
  by (cases k; simp)+

lemma firing_differs [simp]:
  "firing ev a s (Rejecting p e m k) \<noteq> Failing p' e' m' ts k'" "firing ev a s (ConnSpawn q ts) \<noteq> ConnFire q' ts'"
  "firing ev a s (DestroyCancel k) \<noteq> DestroyFire k'" "afterRead v err s \<noteq> ReadCheck err'"
  by (auto simp: firing_def afterRead_def split: option.split)

lemma unused_goroutine: "mach_inv w \<Longrightarrow> \<exists>j. pcs w j = Unused"
  using mach_invD(6) [of w] infinite_UNIV_nat unfolding spawn_inv_def busy_def
  by (metis (mono_tags, lifting) UNIV_eq_I mem_Collect_eq)

lemma movesI: "step G v sb w (goto i k w') \<Longrightarrow> \<not> idle (pcs w i) \<Longrightarrow> k \<noteq> pcs w i \<Longrightarrow> can_move G v sb w i"
  by (erule can_moveI) simp_all

lemma sender_moves:
  assumes "mach_inv w" "loopAlive w \<or> vuDone w" "pcs w i = Sending cb k"
  shows "can_move G v sb w i"
proof -
  have k: "k \<noteq> Sending cb k"
    using continuations(1) [OF mach_invD(1) [OF assms(1)] assms(3)] continuation_differs(1) by blast
  show ?thesis
    using assms(2)
  proof
    assume "loopAlive w"
    then show ?thesis by (intro movesI [OF send [OF assms(3)]]) (simp_all add: k assms(3))
  next
    assume "vuDone w"
    then show ?thesis by (intro movesI [OF send_abort [OF assms(3)]]) (simp_all add: k assms(3))
  qed
qed

lemma writer_moves:
  assumes "pcs w i = WriteRun p c bs n opts"
  shows "can_move G v sb w i"
proof (cases "n < length bs")
  case True
  obtain d r where r: "ConnWrite v (tick (sk w)) c (drop n bs) = (d, r)" by fastforce
  show ?thesis
  proof (cases r)
    case (Some e)
    then show ?thesis using r by (intro movesI [OF write_fail [OF assms True _ refl]]) (simp_all add: assms)
  next
    case None
    show ?thesis
    proof (cases "d = 0")
      case True
      then show ?thesis using r None by (intro movesI [OF write_zero [OF assms \<open>n < length bs\<close> _ refl]]) (simp_all add: assms)
    next
      case False
      then show ?thesis using r None by (intro movesI [OF write_frag [OF assms True _ False]]) (simp_all add: assms)
    qed
  qed
next
  case False
  then show ?thesis by (intro movesI [OF write_done [OF assms]]) (simp_all add: assms)
qed

lemma owner_moves:
  assumes "mach_inv w" "loopAlive w \<or> vuDone w" "stage (pcs w i) \<noteq> Out"
  shows "\<exists>j. can_move G v sb w j"
proof (cases "pcs w i")
  case (DestroyLock k)
  then show ?thesis
    by (intro waiting_for_lock [OF assms(1), of _ _ _ i] movesI [OF destroy_lock [OF DestroyLock]]) simp_all
next
  case (DestroyClose r k)
  then show ?thesis by (intro exI [of _ i] movesI [OF destroy_close [OF DestroyClose]]) simp_all
next
  case (DestroyFire k)
  then show ?thesis by (intro exI [of _ i] movesI [OF destroy_fire [OF DestroyFire]]) simp_all
next
  case (DestroyCancel k)
  then have "k \<noteq> DestroyCancel k"
    using continuations(8) [OF mach_invD(1) [OF assms(1)]] continuation_differs(4) by blast
  then show ?thesis
    using DestroyCancel by (intro exI [of _ i] movesI [OF destroy_cancel [OF DestroyCancel]]) simp_all
next
  case (Sending cb k)
  then show ?thesis using sender_moves [OF assms(1,2)] by blast
qed (use assms(3) in simp_all)

lemma enter_moves:
  assumes "mach_inv w" "loopAlive w \<or> vuDone w" "pcs w i = DestroyEnter k"
  shows "\<exists>j. can_move G v sb w j"
proof (cases "onceSt w")
  case Fresh
  then show ?thesis by (intro exI [of _ i] movesI [OF destroy_first [OF assms(3)]]) (simp_all add: assms(3))
next
  case (Running j)
  then show ?thesis using owner_moves [OF assms(1,2), of j] once_invD(1) [OF mach_invD(4) [OF assms(1)], of j] by simp
next
  case OnceDone
  have "k \<noteq> DestroyEnter k"
    using continuations(4) [OF mach_invD(1) [OF assms(1)] assms(3)] continuation_differs(3) by blast
  then show ?thesis using OnceDone by (intro exI [of _ i] movesI [OF destroy_again [OF assms(3)]]) (simp_all add: assms(3))
qed

lemma reader_moves:
  assumes "mach_inv w" "pcs w i \<in> {ReadHead, ReadSnap, ReadWait c, ReadCheck err}"
  shows "\<exists>j. can_move G v sb w j"
proof -
  consider "pcs w i = ReadHead" | "pcs w i = ReadSnap" | "pcs w i = ReadWait c" | "pcs w i = ReadCheck err"
    using assms(2) by blast
  then show ?thesis
  proof cases
    case 1
    then show ?thesis by (intro waiting_for_lock [OF assms(1), of _ _ _ i] movesI [OF read_head]) simp_all
  next
    case 2
    then show ?thesis
    proof (cases "conn (sk w)")
      case None
      then show ?thesis
        using 2 by (intro waiting_for_lock [OF assms(1), of _ _ _ i] movesI [OF read_snap_none]) simp_all
    next
      case (Some c')
      then show ?thesis
        using 2 by (intro waiting_for_lock [OF assms(1), of _ _ _ i] movesI [OF read_snap]) simp_all
    qed
  next
    case 3
    then show ?thesis by (intro exI [of _ i] movesI [OF read_nothing]) simp_all
  next
    case 4
    then show ?thesis by (intro waiting_for_lock [OF assms(1), of _ _ _ i] movesI [OF read_check]) simp_all
  qed
qed

lemma write_start_moves:
  assumes "mach_inv w" "pcs w i = WriteStart p bs opts"
  shows "\<exists>j. can_move G v sb w j"
proof (cases "conn (sk w)")
  case None
  then show ?thesis
    by (intro waiting_for_lock [OF assms(1), of _ _ _ i] movesI [OF write_start_none [OF assms(2)]]) (simp_all add: assms(2))
next
  case (Some c)
  then show ?thesis
    by (intro waiting_for_lock [OF assms(1), of _ _ _ i] movesI [OF write_start [OF assms(2)]]) (simp_all add: assms(2))
qed

lemma reject_moves:
  assumes "mach_inv w" "pcs w i = Rejecting p e m k"
  shows "can_move G v sb w i"
proof -
  have k: "k \<noteq> pcs w i" "\<not> idle (pcs w i)"
    using continuations(3) [OF mach_invD(1) [OF assms(1)] assms(2)] continuation_differs(2) assms(2) by auto
  show ?thesis
  proof (cases p)
    case None
    then have "pcs w i = Rejecting None e m k" using assms(2) by simp
    from movesI [OF reject_none [OF this] k(2,1)] show ?thesis .
  next
    case (Some q)
    then have "pcs w i = Rejecting (Some q) e m k" using assms(2) by simp
    from movesI [OF reject [OF this] k(2,1)] show ?thesis .
  qed
qed

lemma progress_inv:
  assumes "mach_inv w" "loopAlive w \<or> vuDone w" "\<not> idle (pcs w i)"
  shows "\<exists>j. can_move G v sb w j"
proof (cases "pcs w i")
  case (ConnSpawn p ts)
  obtain j where j: "pcs w j = Unused" using unused_goroutine [OF assms(1)] by blast
  then have "j \<noteq> i" using ConnSpawn by auto
  then show ?thesis
    using ConnSpawn by (intro exI [of _ i] can_moveI [OF conn_spawn [OF ConnSpawn j]]) simp_all
next
  case (ConnStart p)
  then show ?thesis
    by (intro waiting_for_lock [OF assms(1), of _ _ _ i] movesI [OF conn_lock [OF ConnStart]]) simp_all
next
  case (Failing p e m ts k)
  then show ?thesis by (intro exI [of _ i] movesI [OF fail [OF Failing refl]]) simp_all
next
  case (ConnFire p ts)
  then show ?thesis by (intro exI [of _ i] movesI [OF conn_fire [OF ConnFire]]) simp_all
next
  case (ConnDone p ts)
  then show ?thesis by (intro exI [of _ i] movesI [OF conn_done [OF ConnDone]]) simp_all
next
  case (Sending cb k)
  then show ?thesis using sender_moves [OF assms(1,2)] by blast
next
  case (Rejecting p e m k)
  then show ?thesis using reject_moves [OF assms(1)] by blast
next
  case (ConnResolve p ts)
  then show ?thesis using holder_moves [OF assms(1), of i] by auto
next
  case (ConnDial p ts)
  then show ?thesis using holder_moves [OF assms(1), of i] by auto
next
  case ReadHead
  then show ?thesis using reader_moves [OF assms(1), of i] by blast
next
  case ReadSnap
  then show ?thesis using reader_moves [OF assms(1), of i] by blast
next
  case (ReadWait c)
  then show ?thesis using reader_moves [OF assms(1), of i] by blast
next
  case (ReadCheck err)
  then show ?thesis using reader_moves [OF assms(1), of i] by blast
next
  case (WriteStart p bs opts)
  then show ?thesis using write_start_moves [OF assms(1)] by blast
next
  case (WriteRun p c bs n opts)
  then show ?thesis using writer_moves by blast
next
  case (DestroyEnter k)
  then show ?thesis using enter_moves [OF assms(1,2)] by blast
qed (use assms(3) owner_moves [OF assms(1,2), of i] in auto)

section \<open>The order of events\<close>

text \<open>
  The events only a reader fires: \<open>data\<close>, \<open>timeout\<close>, and an \<open>error\<close> of the method
  \<open>read\<close>.
\<close>

definition reader_event :: "'h callback \<Rightarrow> bool" where
  "reader_event cb \<longleftrightarrow> cbEvent cb = ''data'' \<or> cbEvent cb = ''timeout'' \<or>
     (\<exists>e. cbArgs cb = [ArgError (TCPError e)] \<and> ErrMethod e = ''read'')"

fun reads :: "('h, 'ts) pc \<Rightarrow> bool" where
  "reads ReadHead = True"
| "reads ReadSnap = True"
| "reads (ReadWait c) = True"
| "reads (ReadCheck err) = True"
| "reads (Failing p e m ts k) = (m = ''read'')"
| "reads (Rejecting p e m k) = (m = ''read'')"
| "reads (Sending cb k) = (reader_event cb \<or> reads k)"
| "reads _ = False"

text \<open>Every reader event is queued after a \<open>connect\<close> event.\<close>

fun after_connect :: "bool \<Rightarrow> 'h callback list \<Rightarrow> bool" where
  "after_connect b [] = True"
| "after_connect b (cb # cbs) = ((reader_event cb \<longrightarrow> b) \<and> after_connect (b \<or> cbEvent cb = ''connect'') cbs)"

definition connect_queued :: "('h, 'ts) rt \<Rightarrow> bool" where
  "connect_queued s \<longleftrightarrow> (\<exists>cb \<in> set (sent s). cbEvent cb = ''connect'')"

fun passed :: "('h, 'ts) pc \<Rightarrow> bool" where
  "passed (ConnSpawn p ts) = True"
| "passed k = reads k"

definition order_inv :: "('h, 'ts) world \<Rightarrow> bool" where
  "order_inv w \<longleftrightarrow> vuDone w \<or> handlers (sk w) ''connect'' \<noteq> None \<and>
     after_connect False (sent (sk w)) \<and> ((\<exists>i. passed (pcs w i)) \<longrightarrow> connect_queued (sk w))"

lemma after_connect_append:
  "after_connect b (xs @ ys) \<longleftrightarrow> after_connect b xs \<and> after_connect (b \<or> (\<exists>cb \<in> set xs. cbEvent cb = ''connect'')) ys"
  by (induction xs arbitrary: b) (auto simp: disj_ac)

lemma after_connect_prefix:
  "after_connect False (xs @ cb # ys) \<Longrightarrow> reader_event cb \<Longrightarrow> \<exists>c \<in> set xs. cbEvent c = ''connect''"
  by (simp add: after_connect_append)

lemma order_keep:
  "order_inv w \<Longrightarrow> (vuDone w \<Longrightarrow> vuDone w') \<Longrightarrow> handlers (sk w') = handlers (sk w) \<Longrightarrow>
   sent (sk w') = sent (sk w) \<Longrightarrow> (\<And>i. passed (pcs w' i) \<Longrightarrow> \<exists>j. passed (pcs w j)) \<Longrightarrow> order_inv w'"
  unfolding order_inv_def connect_queued_def by metis

lemma passed_final: "final k \<Longrightarrow> \<not> passed k" "base k \<Longrightarrow> \<not> passed k"
  by (cases k; simp)+

lemma passed_continuations:
  assumes "pcs_inv w"
  shows "pcs w i = Failing p e m ts k \<Longrightarrow> \<not> passed k"
    "pcs w i = Rejecting p e m k \<Longrightarrow> \<not> passed k" "pcs w i = DestroyEnter k \<Longrightarrow> \<not> passed k"
    "pcs w i = DestroyCancel k \<Longrightarrow> \<not> passed k"
  by (rule passed_final, erule continuations [OF assms])+

lemma not_reader_event: "cbArgs cb = [] \<Longrightarrow> cbEvent cb \<in> {''connect'', ''close''} \<Longrightarrow> \<not> reader_event cb"
  by (auto simp: reader_event_def)

lemma passed_fail: "passed (firing ''error'' [ArgError (TCPError (newTCPError e m))] s (Rejecting p e m k)) = (m = ''read'')"
  by (rule firing_cases [of "''error''" "[ArgError (TCPError (newTCPError e m))]" s "Rejecting p e m k"])
    (simp_all add: reader_event_def newTCPError_def)

lemma passed_close: "\<not> passed (firing ''close'' [] s (DestroyCancel k))"
  by (rule firing_cases [of "''close''" "[]" s "DestroyCancel k"]) (simp_all add: not_reader_event)

lemma passed_connect:
  assumes "held_inv s" "handlers s ''connect'' \<noteq> None"
  shows "\<not> passed (firing ''connect'' [] s (ConnSpawn p ts))"
proof (rule firing_cases [of "''connect''" "[]" s "ConnSpawn p ts"])
  assume "prepareCallback None ''connect'' [] s = None"
  then show ?thesis
    using assms by (auto simp: prepareCallback_def held_inv_def split: option.splits stored.splits)
qed (simp_all add: not_reader_event)

lemma order_send:
  assumes "order_inv w" "pcs_inv w" "pcs w i = Sending cb k"
  shows "order_inv (goto i k (onSock (sendCallback cb) w))"
proof (cases "vuDone w")
  case True
  then show ?thesis by (simp add: order_inv_def)
next
  case False
  have r: "returns_to (cbEvent cb) k" by (rule continuations(1) [OF assms(2,3)])
  have o: "handlers (sk w) ''connect'' \<noteq> None" "after_connect False (sent (sk w))"
    and q: "\<And>j. passed (pcs w j) \<Longrightarrow> connect_queued (sk w)"
    using assms(1) False by (auto simp: order_inv_def)
  have "passed k \<Longrightarrow> cbEvent cb = ''connect'' \<or> passed (pcs w i)"
    using r by (cases k) (auto simp: assms(3) reader_event_def)
  moreover have "reader_event cb \<Longrightarrow> passed (pcs w i)" by (simp add: assms(3))
  ultimately show ?thesis
    using o q unfolding order_inv_def
    by (auto simp: after_connect_append connect_queued_def split: if_splits)
qed

lemma order_inv_step: "step G v sb w w' \<Longrightarrow> pcs_inv w \<Longrightarrow> held_inv (sk w) \<Longrightarrow> order_inv w \<Longrightarrow> order_inv w'"
proof (induction rule: step.induct)
  case (js_on w e h)
  then show ?case by (auto simp: order_inv_def connect_queued_def on_def)
next
  case (send w i cb k)
  then show ?case by (simp add: order_send)
next
  case (fail w i p e m ts k s1)
  then show ?case by - (erule order_keep; auto simp: passed_fail split: if_splits intro: exI [of _ i])
next
  case (conn_fire w i p ts)
  then show ?case
    using passed_connect [OF conn_fire.prems(2)] by (auto simp: order_inv_def connect_queued_def split: if_splits)
next
  case (destroy_fire w i k)
  then show ?case by - (erule order_keep; auto simp: passed_close split: if_splits)
next
  case (read_data w i c bs err)
  then show ?case using dataRead_pcs [of v i c bs err w] by - (erule order_keep; auto split: if_splits intro: exI [of _ i])
next
  case (read_check w i err)
  then show ?case by - (erule order_keep; auto split: if_splits intro: exI [of _ i])
next
  case (read_head w i)
  then show ?case by - (erule order_keep; auto split: if_splits intro: exI [of _ i])
next
  case (read_snap w i c)
  then show ?case by - (erule order_keep; auto split: if_splits intro: exI [of _ i])
next
  case (read_nothing w i c err)
  then show ?case by - (erule order_keep; auto split: if_splits intro: exI [of _ i])
next
  case (conn_spawn w i p ts j)
  then show ?case by - (erule order_keep; auto split: if_splits intro: exI [of _ i])
next
  case send_abort
  then show ?case by (simp add: order_inv_def)
next
  case vu_done
  then show ?case by (simp add: order_inv_def)
qed (erule order_keep; (frule (1) passed_continuations)?; auto simp: step_frames split: if_splits; fail)+

definition listening :: "tcpMetrics \<Rightarrow> ('h, 'ts) world \<Rightarrow> bool" where
  "listening m w \<longleftrightarrow> (\<exists>h. w = onSock (on ''connect'' h) (start m))"

lemma listening_inv:
  assumes "listening m w"
  shows "mach_inv w \<and> order_inv w"
proof -
  obtain h where w: "w = onSock (on ''connect'' h) (start m)" using assms by (auto simp: listening_def)
  have "pcs (start m) 0 = JSReady" by (simp add: start_def)
  then have "mach_inv w" unfolding w by (rule mach_inv_step [OF mach_inv_start js_on])
  moreover have "order_inv w"
    by (auto simp: w order_inv_def on_def events_def start_def newSocket_def split: if_splits)
  ultimately show ?thesis ..
qed

lemma ordered_step: "mach_inv w \<and> order_inv w \<Longrightarrow> step G v sb w w' \<Longrightarrow> mach_inv w' \<and> order_inv w'"
  using mach_inv_step order_inv_step mach_invD(1,3) by blast

interpretation ordered: transition_system "listening m" "step G v sb" "\<lambda>w. mach_inv w \<and> order_inv w"
  by unfold_locales (erule listening_inv, rule ordered_step)

section \<open>A sender without a receiver\<close>

text \<open>
  Once the loop goroutine has ended, a goroutine in the \<open>select\<close> of \<open>fireAndCleanup\<close> waits
  for the context of the virtual user.
\<close>

lemma stuck_step:
  assumes "step G v sb w w'" "\<not> loopAlive w" "pcs w i = Sending cb k" "\<not> vuDone w'"
  shows "\<not> loopAlive w' \<and> pcs w' i = Sending cb k \<and> \<not> vuDone w"
  using assms
proof (induction rule: step.induct)
  case (read_data w j c bs err)
  then show ?case using dataRead_pcs [of v j c bs err w] by auto
qed (auto intro!: gr0I)

lemma stuck_steps:
  "(step G v sb)\<^sup>*\<^sup>* w w' \<Longrightarrow> \<not> loopAlive w \<Longrightarrow> pcs w i = Sending cb k \<Longrightarrow> \<not> vuDone w' \<Longrightarrow>
   \<not> loopAlive w' \<and> pcs w' i = Sending cb k"
proof (induction rule: rtranclp_induct)
  case (step y z)
  have "\<not> vuDone y"
    using step.hyps(2) step.prems(3) by (induction rule: step.induct) auto
  then show ?case using step stuck_step by blast
qed simp

lemma silent_step:
  assumes "step G v sb w w'" "\<not> loopAlive w" "\<not> vuDone w'"
  shows "\<not> loopAlive w' \<and> sent (sk w') = sent (sk w) \<and> \<not> vuDone w"
  using assms by (induction rule: step.induct) (auto simp: step_frames)

lemma silent_steps:
  "(step G v sb)\<^sup>*\<^sup>* w w' \<Longrightarrow> \<not> loopAlive w \<Longrightarrow> \<not> vuDone w' \<Longrightarrow> \<not> loopAlive w' \<and> sent (sk w') = sent (sk w)"
proof (induction rule: rtranclp_induct)
  case (step y z)
  have "\<not> vuDone y"
    using step.hyps(2) step.prems(2) by (induction rule: step.induct) auto
  then show ?case using step silent_step by metis
qed simp

text \<open>
  A script that registered an \<open>error\<close> handler and destroyed its socket, and that socket once the
  loop goroutine has noticed.
\<close>

lemma destroyed_socket:
  "\<exists>w :: ('h, 'ts) world. reachable G v sb m w \<and> \<not> vuDone w \<and> \<not> loopAlive w \<and> pcs w 0 = JSReady \<and>
     handlers (sk w) = [''error'' \<mapsto> Callable h]"
proof -
  define w1 where "w1 = (onSock (on ''error'' h) (start m) :: ('h, 'ts) world)"
  define w2 where "w2 = goto 0 (DestroyEnter JSReady) w1"
  define w3 where "w3 = goto 0 (DestroyLock JSReady) (w2\<lparr>onceSt := Running 0\<rparr>)"
  define r where "r = fst (destroyLocked v (sk w3))"
  define w4 where "w4 = goto 0 (DestroyClose r JSReady) (onSock (\<lambda>s. snd (destroyLocked v s)) w3)"
  define w5 where "w5 = goto 0 (DestroyFire JSReady) (onSock (destroyClose v r) w4)"
  define w6 where "w6 = goto 0 (DestroyCancel JSReady) w5"
  define w7 where "w7 = goto 0 JSReady (w6\<lparr>onceSt := OnceDone, sk := (sk w6)\<lparr>cancelled := True, destroyOnce := True\<rparr>\<rparr>)"
  note defs = w1_def w2_def w3_def w4_def w5_def w6_def w7_def
  have h: "handlers (sk w5) = [''error'' \<mapsto> Callable h]"
    by (simp add: defs start_def newSocket_def on_def events_def destroyLocked_state)
  have "reachable G v sb m (start m :: ('h, 'ts) world)" by (rule reach_init) simp
  moreover have "step G v sb (start m) w1" unfolding w1_def by (rule js_on) (simp add: start_def)
  ultimately have "reachable G v sb m w1" by (rule reach_step)
  moreover have "step G v sb w1 w2" unfolding w2_def by (rule js_destroy) (simp add: defs start_def)
  ultimately have "reachable G v sb m w2" by (rule reach_step)
  moreover have "step G v sb w2 w3" unfolding w3_def by (rule destroy_first) (simp_all add: defs start_def)
  ultimately have "reachable G v sb m w3" by (rule reach_step)
  moreover have "step G v sb w3 w4"
    unfolding w4_def r_def by (rule destroy_lock) (simp_all add: defs start_def)
  ultimately have "reachable G v sb m w4" by (rule reach_step)
  moreover have "step G v sb w4 w5" unfolding w5_def by (rule destroy_close) (simp add: w4_def)
  ultimately have "reachable G v sb m w5" by (rule reach_step)
  moreover have "step G v sb w5 w6"
    using destroy_fire [of w5 0 JSReady] h by (simp add: w6_def firing_def prepareCallback_def) (simp add: w5_def)
  ultimately have "reachable G v sb m w6" by (rule reach_step)
  moreover have "step G v sb w6 w7" unfolding w7_def by (rule destroy_cancel) (simp add: w6_def)
  ultimately have "reachable G v sb m w7" by (rule reach_step)
  moreover have "step G v sb w7 (w7\<lparr>loopAlive := False\<rparr>)"
    by (rule loop_exit) (simp_all add: defs start_def)
  ultimately have "reachable G v sb m (w7\<lparr>loopAlive := False\<rparr>)" by (rule reach_step)
  then show ?thesis
    by (intro exI [of _ "w7\<lparr>loopAlive := False\<rparr>"]) (use h in \<open>simp add: w7_def w6_def, simp add: defs start_def\<close>)
qed

lemma blocked_script:
  assumes "writePrepare G sb a wo = (Inl e, opts)"
  shows "\<exists>(w :: ('h, 'ts) world) cb k. reachable G v sb m w \<and> \<not> vuDone w \<and> \<not> loopAlive w \<and> pcs w 0 = Sending cb k"
proof -
  obtain w :: "('h, 'ts) world" where w: "reachable G v sb m w" "\<not> vuDone w" "\<not> loopAlive w" "pcs w 0 = JSReady"
    "handlers (sk w) = [''error'' \<mapsto> Callable undefined]"
    using destroyed_socket [where G = G and v = v and sb = sb and m = m and h = undefined] by blast
  let ?ts = "addToTagSet v (currentTags v (sk w)) (woTags opts)"
  let ?w1 = "goto 0 (Failing (Some (promised w)) e ''write'' ?ts JSReady) (w\<lparr>promised := Suc (promised w)\<rparr>)"
  let ?s1 = "addErrorMetrics v ?ts (sk w)"
  let ?k = "Rejecting (Some (promised w)) e ''write'' JSReady"
  let ?w2 = "goto 0 (firing ''error'' [ArgError (TCPError (newTCPError e ''write''))] ?s1 ?k) (?w1\<lparr>sk := ?s1\<rparr>)"
  have "step G v sb w ?w1" by (rule js_write_err [OF w(4) assms refl])
  with w(1) have r1: "reachable G v sb m ?w1" by (rule reach_step)
  have "step G v sb ?w1 ?w2" by (rule fail) simp_all
  with r1 have r2: "reachable G v sb m ?w2" by (rule reach_step)
  have "\<exists>cb. firing ''error'' [ArgError (TCPError (newTCPError e ''write''))] ?s1 ?k = Sending cb ?k"
    using w(5) by (simp add: firing_def prepareCallback_def)
  then show ?thesis
    using w(2,3) by (intro exI [of _ ?w2]) (use r2 in auto)
qed

end
