(* ===== verification/Refine.thy ===== *)
theory Refine
  imports Lifecycle
begin

text \<open>
  The sequential operations of the theories \<open>Connect\<close> and \<open>Write\<close> are what the goroutines of the
  machine do when no other goroutine gets in their way: an uninterrupted run of the machine from
  the entry of an operation ends with the socket the sequential definition gives. So the two views
  of the program are two views of the same program, and what is proved of the sequential
  operations is about possible runs.
\<close>

section \<open>Uninterrupted runs\<close>

definition runs :: "golib \<Rightarrow> 'ts vu \<Rightarrow> 'v sobek \<Rightarrow> ('h, 'ts) world \<Rightarrow> ('h, 'ts) world \<Rightarrow> bool" where
  "runs G v sb w w' \<longleftrightarrow> (step G v sb)\<^sup>*\<^sup>* w w'"

lemma runs_refl [simp]: "runs G v sb w w"
  by (simp add: runs_def)

lemma runs_step: "step G v sb w w1 \<Longrightarrow> runs G v sb w1 w' \<Longrightarrow> runs G v sb w w'"
  unfolding runs_def by (rule converse_rtranclp_into_rtranclp)

lemma runs_trans [trans]: "runs G v sb w w1 \<Longrightarrow> runs G v sb w1 w' \<Longrightarrow> runs G v sb w w'"
  unfolding runs_def by simp

lemma goto_goto [simp]: "goto i k (goto i k' w) = goto i k w"
  by (simp add: goto_def)

lemma goto_here: "pcs w i = k \<Longrightarrow> goto i k w = w"
  by (auto simp: goto_def)

lemma goto_sk [simp]: "(goto i k w)\<lparr>sk := s\<rparr> = goto i k (w\<lparr>sk := s\<rparr>)"
  by (simp add: goto_def)

lemma goto_lock [simp]: "(goto i k w)\<lparr>lock := l\<rparr> = goto i k (w\<lparr>lock := l\<rparr>)"
  by (simp add: goto_def)

lemma onSock_goto [simp]: "onSock f (goto i k w) = goto i k (onSock f w)"
  by (simp add: goto_def onSock_def)

lemma tags_state [simp]: "tags v (s\<lparr>state := x\<rparr>) = tags v s"
  by (simp add: tags_def currentTags_def Let_def)

text \<open>The event loop takes every callback: the \<open>select\<close> sends, and the loop goroutine is there.\<close>

definition attended :: "'ts vu \<Rightarrow> ('h, 'ts) world \<Rightarrow> bool" where
  "attended v w \<longleftrightarrow> (\<forall>t. SelectSend v t = Received) \<and> loopAlive w"

lemma attended_upd [simp]: "attended v (goto i k w) = attended v w" "attended v (onSock f w) = attended v w"
  "attended v (w\<lparr>sk := s\<rparr>) = attended v w" "attended v (w\<lparr>lock := l\<rparr>) = attended v w" "attended v (w\<lparr>onceSt := o'\<rparr>) = attended v w"
  by (simp_all add: attended_def)

lemma attended_attentive: "attended v w \<Longrightarrow> attentive v"
  by (simp add: attended_def attentive_def)

lemma fire_runs:
  assumes "attended v w" "pcs w i = firing ev a (sk w) k"
  shows "runs G v sb w (goto i k (w\<lparr>sk := stateOf (fire v ev a (sk w))\<rparr>))"
proof (rule firing_cases [of ev a "sk w" k])
  assume n: "prepareCallback None ev a (sk w) = None" "firing ev a (sk w) k = k"
  have "stateOf (fire v ev a (sk w)) = sk w" using n(1) by (simp add: fire_def fireAndCleanup_def bufferPut_def)
  then show ?thesis using assms(2) n(2) goto_here [of w i k] by simp
next
  fix cb assume c: "prepareCallback None ev a (sk w) = Some cb" "firing ev a (sk w) k = Sending cb k"
  have "stateOf (fire v ev a (sk w)) = sendCallback cb (sk w)"
    using c(1) assms(1) by (simp add: fire_def fireAndCleanup_def attended_def)
  then show ?thesis
    using runs_step [OF send [of w i cb k G v sb]] assms c(2) by (simp add: onSock_def attended_def)
qed

section \<open>Teardown\<close>

lemma destroy_runs:
  assumes "attended v w" "pcs w i = DestroyEnter k" "lock w = None" "onceSt w = Fresh" "\<not> destroyOnce (sk w)"
  shows "runs G v sb w (goto i k (w\<lparr>onceSt := OnceDone, sk := stateOf (destroy v (sk w))\<rparr>))"
proof -
  let ?r = "fst (destroyLocked v (sk w))"
  let ?s2 = "destroyClose v ?r (snd (destroyLocked v (sk w)))"
  let ?w1 = "goto i (DestroyLock k) (w\<lparr>onceSt := Running i\<rparr>)"
  let ?w2 = "goto i (DestroyClose ?r k) (w\<lparr>onceSt := Running i, sk := snd (destroyLocked v (sk w))\<rparr>)"
  let ?w3 = "goto i (DestroyFire k) (w\<lparr>onceSt := Running i, sk := ?s2\<rparr>)"
  let ?w4 = "goto i (firing ''close'' [] ?s2 (DestroyCancel k)) (w\<lparr>onceSt := Running i, sk := ?s2\<rparr>)"
  let ?w5 = "goto i (DestroyCancel k) (w\<lparr>onceSt := Running i, sk := stateOf (fire v ''close'' [] ?s2)\<rparr>)"
  let ?w6 = "goto i k (w\<lparr>onceSt := OnceDone, sk := stateOf (destroy v (sk w))\<rparr>)"
  have "step G v sb w ?w1" by (rule destroy_first [OF assms(2,4)])
  moreover have "step G v sb ?w1 ?w2"
    using destroy_lock [of ?w1 i k G v sb] assms(3) by (simp add: onSock_def)
  moreover have "step G v sb ?w2 ?w3"
    using destroy_close [of ?w2 i ?r k G v sb] by (simp add: onSock_def)
  moreover have "step G v sb ?w3 ?w4" using destroy_fire [of ?w3 i k G v sb] by simp
  moreover have "runs G v sb ?w4 ?w5"
    using fire_runs [of v ?w4 i "''close''" "[]" "DestroyCancel k" G sb] assms(1) by simp
  moreover have "step G v sb ?w5 ?w6"
    using destroy_cancel [of ?w5 i k G v sb] assms(5)
      attended_attentive [OF assms(1)]
    by (simp add: destroy_eq torn_def) (simp add: goto_def)
  ultimately show ?thesis by (meson runs_step runs_trans runs_refl)
qed

section \<open>Errors\<close>

lemma fail_runs:
  assumes "attended v w" "pcs w i = Failing (Some p) e m ts k"
  shows "runs G v sb w (goto i k (w\<lparr>sk := stateOf (rejectWithTCPError v p e m ts (sk w))\<rparr>))"
proof -
  let ?s1 = "addErrorMetrics v ts (sk w)"
  let ?a = "[ArgError (TCPError (newTCPError e m))]"
  let ?s2 = "stateOf (fire v ''error'' ?a ?s1)"
  let ?w1 = "goto i (firing ''error'' ?a ?s1 (Rejecting (Some p) e m k)) (w\<lparr>sk := ?s1\<rparr>)"
  let ?w2 = "goto i (Rejecting (Some p) e m k) (w\<lparr>sk := ?s2\<rparr>)"
  have eq: "settle p (Rejected (TCPError (newTCPError e m))) ?s2 = stateOf (rejectWithTCPError v p e m ts (sk w))"
    using attended_attentive [OF assms(1)] by (simp add: rejectWithTCPError_eq Let_def)
  have a: "step G v sb w ?w1" by (rule fail [OF assms(2) refl])
  have b: "runs G v sb ?w1 ?w2"
    using fire_runs [of v ?w1 i "''error''" ?a "Rejecting (Some p) e m k" G sb] assms(1) by simp
  have c: "step G v sb ?w2 (goto i k (w\<lparr>sk := settle p (Rejected (TCPError (newTCPError e m))) ?s2\<rparr>))"
    using reject [of ?w2 i p e m k G v sb] by (simp add: onSock_def)
  show ?thesis by (rule runs_step [OF a runs_trans [OF b runs_step [OF c [unfolded eq] runs_refl]]])
qed

section \<open>Writing\<close>

definition settledWith :: "goerror option \<Rightarrow> outcome" where
  "settledWith r = (case r of None \<Rightarrow> Resolved | Some e \<Rightarrow> Rejected e)"

definition writeEnd ::
    "'ts vu \<Rightarrow> nat \<Rightarrow> byte list \<Rightarrow> writeOptions \<Rightarrow> nat \<times> goerror option \<times> ('h, 'ts) rt \<Rightarrow> ('h, 'ts) rt" where
  "writeEnd v p data opts r = settle p (settledWith (fst (snd r))) (writeMetrics v data (fst r) (fst (snd r)) opts (snd (snd r)))"

lemma writeLoop_runs_all:
  "\<forall>w :: ('h, 'ts) world. pcs w i = WriteRun p c data k opts \<longrightarrow> sk w = s \<longrightarrow>
     runs G v sb w (goto i Ended (w\<lparr>sk := writeEnd v p data opts (writeLoop v c data k s)\<rparr>))"
proof (rule writeLoop_rule [where P = "\<lambda>k s r. \<forall>w. pcs w i = WriteRun p c data k opts \<longrightarrow> sk w = s \<longrightarrow>
    runs G v sb w (goto i Ended (w\<lparr>sk := writeEnd v p data opts r\<rparr>))"], goal_cases)
  case (1 k s)
  then show ?case
    using runs_step [OF write_done runs_refl] by (fastforce simp: writeEnd_def settledWith_def onSock_def)
next
  case (2 k s n e)
  then show ?case
    using runs_step [OF write_fail [OF _ _ _ refl] runs_refl]
    by (fastforce simp: writeEnd_def settledWith_def onSock_def)
next
  case (3 k s)
  then show ?case
    using runs_step [OF write_zero [OF _ _ _ refl] runs_refl]
    by (fastforce simp: writeEnd_def settledWith_def onSock_def)
next
  case (4 k s n r)
  show ?case
  proof (intro allI impI)
    fix w :: "('h, 'ts) world" assume w: "pcs w i = WriteRun p c data k opts" "sk w = s"
    let ?s1 = "(wrote c data k n None s)\<lparr>totalWritten := totalWritten s + of_nat n\<rparr>"
    let ?w1 = "goto i (WriteRun p c data (k + n) opts) (w\<lparr>sk := ?s1\<rparr>)"
    have "step G v sb w ?w1"
      using write_frag [of w i p c data k opts v n G sb] w 4(1-3) by (simp add: onSock_def)
    moreover have "runs G v sb ?w1 (goto i Ended (?w1\<lparr>sk := writeEnd v p data opts r\<rparr>))"
      using spec [OF 4(4), of ?w1] by simp
    ultimately show "runs G v sb w (goto i Ended (w\<lparr>sk := writeEnd v p data opts r\<rparr>))"
      by (simp add: runs_step)
  qed
qed

lemma write_runs:
  assumes "pcs w i = WriteStart p data opts" "lock w = None"
  shows "runs G v sb w (goto i Ended (w\<lparr>sk := writeGoroutine v p data opts (sk w)\<rparr>))"
proof (cases "conn (sk w)")
  case None
  then show ?thesis
    using runs_step [OF write_start_none [OF assms None] runs_refl]
    by (simp add: writeGoroutine_def writeExecute_def onSock_def)
next
  case (Some c)
  have "writeGoroutine v p data opts (sk w) = writeEnd v p data opts (writeLoop v c data 0 (sk w))"
    using Some by (simp add: writeGoroutine_def writeExecute_def writeEnd_def settledWith_def Let_def case_prod_unfold
        split: option.splits)
  moreover have "runs G v sb (goto i (WriteRun p c data 0 opts) w)
      (goto i Ended (w\<lparr>sk := writeEnd v p data opts (writeLoop v c data 0 (sk w))\<rparr>))"
    using spec [OF writeLoop_runs_all [of i p c data 0 opts "sk w" G v sb],
        of "goto i (WriteRun p c data 0 opts) w"] by simp
  ultimately show ?thesis using runs_step [OF write_start [OF assms Some]] by simp
qed

section \<open>Connecting\<close>

lemma connect_tail_runs:
  assumes "attended v w" "pcs w i = ConnFire p ts" "pcs w j = Unused" "i \<noteq> j"
  shows "runs G v sb w (goto j ReadHead (goto i Ended (w\<lparr>sk :=
    (let s3 = go GoRead (stateOf (fire v ''connect'' [] (sk w)))
     in settle p Resolved (addCounterMetrics v (tcpSockets (metrics s3)) ts s3))\<rparr>)))"
proof -
  let ?w1 = "goto i (firing ''connect'' [] (sk w) (ConnSpawn p ts)) w"
  let ?s2 = "stateOf (fire v ''connect'' [] (sk w))"
  let ?w2 = "goto i (ConnSpawn p ts) (w\<lparr>sk := ?s2\<rparr>)"
  let ?w3 = "goto j ReadHead (goto i (ConnDone p ts) (w\<lparr>sk := go GoRead ?s2\<rparr>))"
  have a: "step G v sb w ?w1" by (rule conn_fire [OF assms(2)])
  have b: "runs G v sb ?w1 ?w2" using fire_runs [of v ?w1 i "''connect''" "[]" "ConnSpawn p ts" G sb] assms(1) by simp
  have c: "step G v sb ?w2 ?w3"
    using conn_spawn [of ?w2 i p ts j G v sb] assms(3,4) by (simp add: goto_def onSock_def)
  have d: "step G v sb ?w3 (goto j ReadHead (goto i Ended (w\<lparr>sk :=
      settle p Resolved (addCounterMetrics v (tcpSockets (metrics (go GoRead ?s2))) ts (go GoRead ?s2))\<rparr>)))"
    using conn_done [of ?w3 i p ts G v sb] assms(4) by (simp add: goto_def onSock_def fun_upd_twist)
  show ?thesis
    unfolding Let_def by (rule runs_step [OF a runs_trans [OF b runs_step [OF c runs_step [OF d runs_refl]]]])
qed

lemma reject_returns: "attentive v \<Longrightarrow> rejectWithTCPError v p e m ts s = Returns () (stateOf (rejectWithTCPError v p e m ts s))"
  by (simp add: rejectWithTCPError_eq Let_def)

lemma execute_returns:
  assumes "attentive v" "connectOpts s = Some co" "connectLocked v co (tags v s) s = (None, s1)"
  shows "\<exists>s'. connectExecute v s = Returns None s'"
  by (rule fire_cases [of v "''connect''" s1 "[]"]) (use assms in \<open>simp_all add: connectExecute_def Let_def\<close>)

lemma refused_runs:
  assumes "attended v w"
    and "step G v sb w1 (goto i (Failing (Some p) e ''connect'' (tags v s) Ended) (w\<lparr>lock := None, sk := s\<lparr>state := Disconnected\<rparr>\<rparr>))"
  shows "runs G v sb w1 (goto i Ended (w\<lparr>lock := None, sk :=
    stateOf (rejectWithTCPError v p e ''connect'' (tags v (s\<lparr>state := Disconnected\<rparr>)) (s\<lparr>state := Disconnected\<rparr>))\<rparr>))"
proof -
  let ?w2 = "goto i (Failing (Some p) e ''connect'' (tags v s) Ended) (w\<lparr>lock := None, sk := s\<lparr>state := Disconnected\<rparr>\<rparr>)"
  show ?thesis
    using runs_step [OF assms(2) fail_runs [of v ?w2 i p e "''connect''" "tags v s" Ended G sb]] assms(1) by simp
qed

lemma connect_runs:
  assumes "attended v w" "pcs w i = ConnStart p" "lock w = None" "connectOpts (sk w) = Some co"
    and "pcs w j = Unused" "i \<noteq> j"
  shows "\<exists>w'. runs G v sb w w' \<and> pcs w' i = Ended \<and> lock w' = None \<and> connectGoroutine v p (sk w) = Returns () (sk w') \<and>
    (pcs w' j = ReadHead \<longleftrightarrow> (\<exists>s'. connectExecute v (sk w) = Returns None s'))"
proof -
  let ?ts = "tags v (sk w)"
  let ?s0 = "(sk w)\<lparr>state := Opening\<rparr>"
  let ?w1 = "goto i (ConnResolve p ?ts) (w\<lparr>lock := Some i, sk := ?s0\<rparr>)"
  note att = attended_attentive [OF assms(1)]
  have a: "step G v sb w ?w1" by (rule conn_lock [OF assms(2,3)])
  obtain r s1 where r: "addDurationMetricsFor v (tcpResolving (metrics ?s0)) ?ts (resolve v co) ?s0 = (r, s1)" by fastforce
  show ?thesis
  proof (cases r)
    case (Some e)
    have "step G v sb ?w1 (goto i (Failing (Some p) e ''connect'' (tags v s1) Ended)
        (w\<lparr>lock := None, sk := s1\<lparr>state := Disconnected\<rparr>\<rparr>))"
      using conn_resolve_err [of ?w1 i p ?ts co v e s1 G sb] assms(4) r Some by simp
    from runs_step [OF a refused_runs [OF assms(1) this]] show ?thesis
      using r Some assms(4,5,6)
      by (intro exI conjI) (auto simp: goto_def connectGoroutine_def connectExecute_def connectLocked_def Let_def
          intro!: reject_returns [OF att])
  next
    case None
    let ?w2 = "goto i (ConnDial p ?ts) (w\<lparr>lock := Some i, sk := s1\<rparr>)"
    have b: "step G v sb ?w1 ?w2" using conn_resolve [of ?w1 i p ?ts co v s1 G sb] assms(4) r None by simp
    have "untouched ?s0 s1"
      using addDurationMetricsFor_untouched [where fn = "resolve v co" and s = ?s0 and v = v
          and m = "tcpResolving (metrics ?s0)" and ts = ?ts, OF resolve_untouched] unfolding r by simp
    then have co: "connectOpts s1 = Some co" using assms(4) by (simp add: untouched_def)
    obtain d s2 where d: "dialed v co ?ts s1 = (d, s2)" by fastforce
    show ?thesis
    proof (cases d)
      case (Some e)
      have "step G v sb ?w2 (goto i (Failing (Some p) e ''connect'' (tags v s2) Ended)
          (w\<lparr>lock := None, sk := s2\<lparr>state := Disconnected\<rparr>\<rparr>))"
        using conn_dial_err [of ?w2 i p ?ts co v e s2 G sb] co d Some by simp
      from runs_step [OF a runs_step [OF b refused_runs [OF assms(1) this]]] show ?thesis
        using r None d Some assms(4,5,6)
        by (intro exI conjI)
          (auto simp: goto_def connectGoroutine_def connectExecute_def connectLocked_def dialed_def Let_def
            intro!: reject_returns [OF att])
    next
      case d': None
      let ?w3 = "goto i (ConnFire p ?ts) (w\<lparr>lock := None, sk := s2\<rparr>)"
      have c: "step G v sb ?w2 ?w3" using conn_dial [of ?w2 i p ?ts co v s2 G sb] co d d' by simp
      have e: "runs G v sb ?w3 (goto j ReadHead (goto i Ended (w\<lparr>lock := None, sk :=
          (let s3 = go GoRead (stateOf (fire v ''connect'' [] s2))
           in settle p Resolved (addCounterMetrics v (tcpSockets (metrics s3)) ?ts s3))\<rparr>)))"
        using connect_tail_runs [of v ?w3 i p ?ts j G sb] assms(1,5,6)
        by (simp add: goto_def attended_def)
      have l: "connectLocked v co ?ts (sk w) = (None, s2)" using r None d d' by (simp add: connectLocked_def dialed_def Let_def)
      from runs_step [OF a runs_step [OF b runs_step [OF c e]]] show ?thesis
        using connectGoroutine_ok [OF assms(4) l, of p] execute_returns [OF att assms(4) l] att assms(6)
        by (intro exI conjI) (auto simp: goto_def Let_def)
    qed
  qed
qed

section \<open>The life cycle of a socket\<close>

text \<open>
  The abstract socket is its state alone. An attempt to connect starts in any settled state and
  ends open or disconnected; only a settled socket is destroyed. Every step of the machine is a
  step of this automaton, or none.
\<close>

fun edge :: "socketState \<Rightarrow> socketState \<Rightarrow> bool" where
  "edge Opening b = (b = Open \<or> b = Disconnected)"
| "edge a b = (b = Opening \<or> b = Destroyed)"

lemma edge_settled: "a \<noteq> Opening \<Longrightarrow> edge a b \<longleftrightarrow> b = Opening \<or> b = Destroyed"
  by (cases a) auto

lemma holder_opening: "lock_inv w \<Longrightarrow> holds_lock (pcs w i) \<Longrightarrow> state (sk w) = Opening"
  by (auto simp: lock_inv_def)

lemma lifecycle_step:
  "step G v sb w w' \<Longrightarrow> lock_inv w \<Longrightarrow> state (sk w') = state (sk w) \<or> edge (state (sk w)) (state (sk w'))"
proof (induction rule: step.induct)
  case conn_lock
  then show ?case by (simp add: lock_inv_def edge_settled)
next
  case (conn_resolve_err w i p ts co e s1)
  then show ?case using holder_opening [of w i] by (simp add: step_frames)
next
  case (conn_dial w i p ts co s1)
  then show ?case using dialed_okD [OF conn_dial.hyps(3)] holder_opening [of w i] by simp
next
  case (conn_dial_err w i p ts co e s1)
  then show ?case using holder_opening [of w i] by simp
next
  case destroy_lock
  then show ?case by (simp add: lock_inv_def edge_settled destroyLocked_state)
qed (auto simp: step_frames)

end
