(* ===== verification/Reader.thy ===== *)
theory Reader
  imports Refine
begin

text \<open>
  The read loop of the theory \<open>Read\<close> is what the reader of the machine does when no other goroutine
  gets in its way: an uninterrupted run from the head of the loop, over what the network delivers,
  ends with the socket \<open>readLoop\<close> gives, at the head of the loop or at the deferred \<open>destroy\<close>.
\<close>

section \<open>One round\<close>

lemma data_runs:
  assumes "attended v w" "pcs w i = ReadWait c" "length bs \<le> 4096"
  shows "runs G v sb w (goto i (ReadCheck err) (w\<lparr>sk := stateOf (readData v c bs (sk w))\<rparr>))"
proof (cases "bs = []")
  case True
  then show ?thesis
    using runs_step [OF read_nothing [OF assms(2)] runs_refl] by (simp add: readData_state onSock_def netcall_def)
next
  case False
  note step = read_data [OF assms(2) False assms(3)]
  let ?s2 = "gotBytes v c bs (sk w)"
  let ?b = "PoolGet v (tick ?s2) (inUse ?s2)"
  let ?s3 = "bufferFilled v bs ?s2"
  show ?thesis
  proof (cases "prepareCallback (Some ?b) ''data'' [ArgBytes ?b] ?s3")
    case None
    then have "step G v sb w (goto i (ReadCheck err) (w\<lparr>sk := stateOf (readData v c bs (sk w))\<rparr>))"
      using step [of G v sb err] False by (simp add: dataRead_def readData_state fireAndCleanup_def Let_def)
    then show ?thesis by (rule runs_step) simp
  next
    case (Some cb)
    let ?w1 = "goto i (Sending cb (ReadCheck err)) (w\<lparr>sk := ?s3\<rparr>)"
    have "step G v sb w ?w1" using step [of G v sb err] Some by (simp add: dataRead_def Let_def)
    moreover have "step G v sb ?w1 (goto i (ReadCheck err) (w\<lparr>sk := stateOf (readData v c bs (sk w))\<rparr>))"
      using send [of ?w1 i cb "ReadCheck err" G v sb] Some False assms(1)
      by (simp add: readData_state fireAndCleanup_def Let_def onSock_def attended_def)
    ultimately show ?thesis by (meson runs_step runs_refl)
  qed
qed

lemma report_runs:
  assumes "attended v w" "pcs w i = Failing None e m ts k"
  shows "runs G v sb w (goto i k (w\<lparr>sk := stateOf (handleError v e m ts (sk w))\<rparr>))"
proof -
  let ?s1 = "addErrorMetrics v ts (sk w)"
  let ?a = "[ArgError (TCPError (newTCPError e m))]"
  let ?w1 = "goto i (firing ''error'' ?a ?s1 (Rejecting None e m k)) (w\<lparr>sk := ?s1\<rparr>)"
  let ?w2 = "goto i (Rejecting None e m k) (w\<lparr>sk := stateOf (fire v ''error'' ?a ?s1)\<rparr>)"
  have "step G v sb w ?w1" by (rule fail [OF assms(2) refl])
  moreover have "runs G v sb ?w1 ?w2"
    using fire_runs [of v ?w1 i "''error''" ?a "Rejecting None e m k" G sb] assms(1) by simp
  moreover have "step G v sb ?w2 (goto i k (w\<lparr>sk := stateOf (handleError v e m ts (sk w))\<rparr>))"
    using reject_none [of ?w2 i e m k G v sb] by (simp add: handleError_state)
  ultimately show ?thesis by (meson runs_step runs_trans runs_refl)
qed

text \<open>Where the loop goes on.\<close>

definition nextRound :: "bool \<Rightarrow> ('h, 'ts) pc" where
  "nextRound continue = (if continue then ReadHead else DestroyEnter Ended)"

lemma tail_runs:
  assumes "attended v w" "pcs w i = ReadCheck err" "lock w = None" "readTail v err (sk w) = Returns continue s1"
  shows "runs G v sb w (goto i (nextRound continue) (w\<lparr>sk := s1\<rparr>))"
proof -
  let ?w1 = "goto i (afterRead v err (sk w)) w"
  have a: "step G v sb w ?w1" by (rule read_check [OF assms(2,3)])
  consider "\<not> isReadable (sk w)" | "isReadable (sk w)" "err = None"
    | e where "isReadable (sk w)" "err = Some e" "errors_Is e EOF"
    | e where "isReadable (sk w)" "err = Some e" "\<not> errors_Is e EOF" "is_timeout e"
    | e where "isReadable (sk w)" "err = Some e" "\<not> errors_Is e EOF" "\<not> is_timeout e"
    by (cases err) auto
  then show ?thesis
  proof cases
    case (4 e)
    have "runs G v sb ?w1 (goto i ReadHead (w\<lparr>sk := stateOf (fire v ''timeout'' [] (sk w))\<rparr>))"
      using fire_runs [of v ?w1 i "''timeout''" "[]" ReadHead G sb] assms(1) 4 by (simp add: afterRead_def)
    then show ?thesis
      using runs_step [OF a] assms(4) 4 by (auto simp: readTail_def nextRound_def andThen_Returns)
  next
    case (5 e)
    have "runs G v sb ?w1 (goto i (DestroyEnter Ended) (w\<lparr>sk := stateOf (handleError v e ''read'' (currentTags v (sk w)) (sk w))\<rparr>))"
      using report_runs [of v ?w1 i e "''read''" "currentTags v (sk w)" "DestroyEnter Ended" G sb] assms(1) 5
      by (simp add: afterRead_def)
    then show ?thesis
      using runs_step [OF a] assms(4) 5 by (auto simp: readTail_def nextRound_def andThen_Returns)
  qed (use runs_step [OF a runs_refl] assms(4) in \<open>auto simp: readTail_def afterRead_def nextRound_def\<close>)
qed

section \<open>The loop\<close>

text \<open>A read that no other goroutine interferes with.\<close>

definition undisturbed :: "byte list \<times> goerror option \<Rightarrow> ('h, 'ts) readItem" where
  "undisturbed r = \<lparr>during = id, rBytes = fst r, rErr = snd r, after = id\<rparr>"

lemma round_runs:
  assumes "attended v w" "pcs w i = ReadHead" "lock w = None" "isReadable (sk w)" "conn (sk w) = Some c"
    and "length (fst r) \<le> 4096" "readLoopStep v c (timeout (sk w)) (undisturbed r) (sk w) = Returns continue s1"
  shows "runs G v sb w (goto i (nextRound continue) (w\<lparr>sk := s1\<rparr>))"
proof -
  let ?s0 = "readBefore v c (timeout (sk w)) (sk w)"
  let ?w1 = "goto i ReadSnap w"
  let ?w2 = "goto i (ReadWait c) (w\<lparr>sk := ?s0\<rparr>)"
  obtain u where d: "readData v c (fst r) ?s0 = Returns () u" "readTail v (snd r) u = Returns continue s1"
    using assms(7) by (auto simp: readLoopStep_def undisturbed_def andThen_Returns)
  let ?w3 = "goto i (ReadCheck (snd r)) (w\<lparr>sk := u\<rparr>)"
  have "step G v sb w ?w1" using read_head [OF assms(2,3)] assms(4) by simp
  moreover have "step G v sb ?w1 ?w2" using read_snap [of ?w1 i c G v sb] assms(3,5) by (simp add: onSock_def)
  moreover have "runs G v sb ?w2 ?w3"
    using data_runs [of v ?w2 i c "fst r" G sb "snd r"] assms(1,6) d(1) by simp
  moreover have "runs G v sb ?w3 (goto i (nextRound continue) (w\<lparr>sk := s1\<rparr>))"
    using tail_runs [of v ?w3 i "snd r" continue s1 G sb] assms(1,3) d(2) by simp
  ultimately show ?thesis by (meson runs_step runs_trans)
qed

lemma leave_runs:
  assumes "pcs w i = ReadHead" "lock w = None" "\<not> (isReadable (sk w) \<and> conn (sk w) \<noteq> None)"
  shows "runs G v sb w (goto i (DestroyEnter Ended) w)"
proof (cases "isReadable (sk w)")
  case True
  let ?w1 = "goto i ReadSnap w"
  have "step G v sb w ?w1" using read_head [OF assms(1,2)] True by simp
  moreover have "step G v sb ?w1 (goto i (DestroyEnter Ended) w)"
    using read_snap_none [of ?w1 i G v sb] assms(2,3) True by simp
  ultimately show ?thesis by (meson runs_step runs_refl)
next
  case False
  then show ?thesis using runs_step [OF read_head [OF assms(1,2)] runs_refl] by simp
qed

lemma core_destroyOnce: "core s = core t \<Longrightarrow> destroyOnce s = destroyOnce t"
  by (simp add: core_def)

lemma undisturbed_once:
  assumes "readLoopStep v c tmo (undisturbed r) s = Returns b t"
  shows "destroyOnce t = destroyOnce s"
proof -
  obtain u where "readData v c (fst r) (readBefore v c tmo s) = Returns () u" "readTail v (snd r) u = Returns b t"
    using assms by (auto simp: readLoopStep_def undisturbed_def andThen_Returns)
  then show ?thesis
    using readData_fields(7) [of v c "fst r" "readBefore v c tmo s"] core_destroyOnce [OF readTail.core_op, of v "snd r" u] by simp
qed

lemma readLoop_once: "readLoop v (map undisturbed rs) s = Returns ended s' \<Longrightarrow> destroyOnce s' = destroyOnce s"
proof (induction rs arbitrary: s)
  case (Cons r rs)
  then show ?case by (auto simp: andThen_Returns dest!: undisturbed_once split: if_splits option.splits)
qed simp

lemma readLoop_runs:
  assumes "attended v w" "pcs w i = ReadHead" "lock w = None" "\<forall>r \<in> set rs. length (fst r) \<le> 4096"
    and "readLoop v (map undisturbed rs) (sk w) = Returns ended s'"
  shows "runs G v sb w (goto i (nextRound (\<not> ended)) (w\<lparr>sk := s'\<rparr>))"
  using assms
proof (induction rs arbitrary: w)
  case Nil
  have "runs G v sb w (goto i (DestroyEnter Ended) w)" if "\<not> (isReadable (sk w) \<and> conn (sk w) \<noteq> None)"
    using leave_runs [OF Nil(2,3) that] .
  with Nil show ?case using goto_here [OF Nil(2)] by (auto simp: nextRound_def)
next
  case (Cons r rs)
  show ?case
  proof (cases "isReadable (sk w) \<and> conn (sk w) \<noteq> None")
    case False
    then show ?thesis
      using leave_runs [OF Cons.prems(2,3) False] Cons.prems(5) by (auto simp: nextRound_def split: option.splits)
  next
    case True
    then obtain c where c: "isReadable (sk w)" "conn (sk w) = Some c" by blast
    obtain continue s1 where l: "readLoopStep v c (timeout (sk w)) (undisturbed r) (sk w) = Returns continue s1"
      by (rule quiet_returns [OF attended_attentive [OF Cons.prems(1)]])
    have one: "runs G v sb w (goto i (nextRound continue) (w\<lparr>sk := s1\<rparr>))"
      using round_runs [OF Cons.prems(1-3) c _ l] Cons.prems(4) by simp
    show ?thesis
    proof (cases continue)
      case False
      then show ?thesis using one Cons.prems(5) c l by simp
    next
      case True
      let ?w1 = "goto i ReadHead (w\<lparr>sk := s1\<rparr>)"
      have "runs G v sb ?w1 (goto i (nextRound (\<not> ended)) (w\<lparr>sk := s'\<rparr>))"
        using Cons.IH [of ?w1] Cons.prems c l True by simp
      then show ?thesis using one True runs_trans by (auto simp: nextRound_def)
    qed
  qed
qed

lemma read_runs:
  assumes "attended v w" "pcs w i = ReadHead" "lock w = None" "\<forall>r \<in> set rs. length (fst r) \<le> 4096"
    and "onceSt w = (if destroyOnce (sk w) then OnceDone else Fresh)"
    and "read v (map undisturbed rs) (sk w) = Returns ended s'"
  shows "runs G v sb w (goto i (if ended then Ended else ReadHead)
    (w\<lparr>onceSt := (if ended then OnceDone else onceSt w), sk := s'\<rparr>))"
proof -
  obtain s1 where l: "readLoop v (map undisturbed rs) (sk w) = Returns ended s1"
      "if ended then destroy v s1 = Returns () s' else s' = s1"
    using assms(6) by (auto simp: read_def andThen_Returns split: if_splits)
  let ?w1 = "goto i (nextRound (\<not> ended)) (w\<lparr>sk := s1\<rparr>)"
  have a: "runs G v sb w ?w1" by (rule readLoop_runs [OF assms(1-4) l(1)])
  have once: "destroyOnce s1 = destroyOnce (sk w)" by (rule readLoop_once [OF l(1)])
  show ?thesis
  proof (cases ended)
    case False
    then show ?thesis using a l(2) by (simp add: nextRound_def)
  next
    case True
    have "runs G v sb ?w1 (goto i Ended (w\<lparr>onceSt := OnceDone, sk := s'\<rparr>))"
    proof (cases "destroyOnce (sk w)")
      case t: True
      have d: "s' = s1" using once t l(2) True by (simp add: destroy_def)
      have o: "w\<lparr>onceSt := OnceDone, sk := s1\<rparr> = w\<lparr>sk := s1\<rparr>" using assms(5) t by simp
      have "runs G v sb ?w1 (goto i Ended (w\<lparr>sk := s1\<rparr>))"
        using runs_step [OF destroy_again [of ?w1 i Ended G v sb] runs_refl] True assms(5) t by (simp add: nextRound_def)
      then show ?thesis unfolding d o .
    next
      case f: False
      then show ?thesis
        using destroy_runs [of v ?w1 i Ended G sb] assms(1,3,5) True once l(2) by (simp add: nextRound_def goto_def attended_def)
    qed
    then show ?thesis using runs_trans [OF a] l(2) True by simp
  qed
qed

end
