(* ===== verification/Buffers.thy ===== *)
theory Buffers
  imports Lifecycle
begin

text \<open>
  Who holds the pooled buffers of a socket (\<open>bufferPool\<close> in \<open>socket_read.go\<close>): the reader puts every
  chunk into a buffer of its own, which belongs to the \<open>data\<close> callback until the handler has
  returned or the callback is dropped. In every interleaving each buffer in use belongs to exactly one
  callback, and no step writes to it in the meantime.
\<close>

section \<open>Owners\<close>

text \<open>
  Where a callback can be: queued (at this position of everything ever sent), running in the event
  loop, or still offered by a goroutine in the \<open>select\<close> of \<open>fireAndCleanup\<close>.
\<close>

datatype place = Queued nat | InHandler | Offered nat

fun offers :: "('h, 'ts) pc \<Rightarrow> nat option" where
  "offers (Sending cb k) = cbCleanup cb"
| "offers _ = None"

fun bufferAt :: "('h, 'ts) world \<Rightarrow> place \<Rightarrow> nat option" where
  "bufferAt w (Queued n) = (if ran w \<le> n \<and> n < length (sent (sk w)) then cbCleanup (sent (sk w) ! n) else None)"
| "bufferAt w InHandler = Option.bind (running w) cbCleanup"
| "bufferAt w (Offered i) = offers (pcs w i)"

definition buffer_inv :: "('h, 'ts) world \<Rightarrow> bool" where
  "buffer_inv w \<longleftrightarrow> inj_on (bufferAt w) (dom (bufferAt w)) \<and> Map.ran (bufferAt w) = set (inUse (sk w)) \<and>
     distinct (inUse (sk w)) \<and> ran w \<le> length (sent (sk w))"

lemma buffer_keep:
  assumes "buffer_inv w" "inUse (sk w') = inUse (sk w)" "ran w' = ran w" "running w' = running w"
    "sent (sk w') = sent (sk w)" "\<And>i. offers (pcs w' i) = offers (pcs w i)"
  shows "buffer_inv w'"
proof -
  have "bufferAt w' p = bufferAt w p" for p using assms(3-6) by (cases p) simp_all
  then have "bufferAt w' = bufferAt w" by blast
  then show ?thesis using assms(1-3,5) by (simp add: buffer_inv_def)
qed

text \<open>A callback moves from one place to another.\<close>

lemma buffer_pass:
  assumes "buffer_inv w" "bufferAt w p = x" "bufferAt w q = None" "p \<noteq> q"
    "bufferAt w' = (bufferAt w)(p := None, q := x)" "inUse (sk w') = inUse (sk w)" "ran w' \<le> length (sent (sk w'))"
  shows "buffer_inv w'"
proof (cases x)
  case None
  then have "bufferAt w' = bufferAt w" using assms(2,3,5) by (auto simp: fun_upd_def)
  then show ?thesis using assms(1,6,7) by (simp add: buffer_inv_def)
next
  case (Some b)
  have inj: "inj_on (bufferAt w) (dom (bufferAt w))" using assms(1) by (simp add: buffer_inv_def)
  note drop = inj_upd_None [OF inj assms(2) [unfolded Some]]
  have "b \<in> Map.ran (bufferAt w)" using assms(2) Some by (auto intro: ranI)
  then show ?thesis
    using inj_upd_fresh [of "(bufferAt w)(p := None)" b q] drop assms Some by (simp add: buffer_inv_def insert_absorb)
qed

text \<open>A callback is over, and its buffer goes back to the pool.\<close>

lemma buffer_put:
  assumes "buffer_inv w" "bufferAt w p = x" "bufferAt w' = (bufferAt w)(p := None)"
    "inUse (sk w') = inUse (bufferPut x (sk w))" "ran w' \<le> length (sent (sk w'))"
  shows "buffer_inv w'"
proof (cases x)
  case None
  then have "bufferAt w' = bufferAt w" using assms(2,3) by auto
  then show ?thesis using assms(1,4,5) None by (simp add: buffer_inv_def bufferPut_def)
next
  case (Some b)
  have inj: "inj_on (bufferAt w) (dom (bufferAt w))" using assms(1) by (simp add: buffer_inv_def)
  show ?thesis
    using inj_upd_None [OF inj assms(2) [unfolded Some]] assms Some by (simp add: buffer_inv_def bufferPut_def)
qed

section \<open>Steps\<close>

lemma offers_final: "final k \<Longrightarrow> offers k = None" "base k \<Longrightarrow> offers k = None" "returns_to ev k \<Longrightarrow> offers k = None"
  by (cases k; simp)+

lemma offers_continuations:
  assumes "pcs_inv w"
  shows "pcs w i = Sending cb k \<Longrightarrow> offers k = None" "pcs w i = Failing p e m ts k \<Longrightarrow> offers k = None"
    "pcs w i = Rejecting p e m k \<Longrightarrow> offers k = None" "pcs w i = DestroyEnter k \<Longrightarrow> offers k = None"
    "pcs w i = DestroyCancel k \<Longrightarrow> offers k = None"
  by (rule offers_final, erule continuations [OF assms])+

lemma offers_firing [simp]: "offers k = None \<Longrightarrow> offers (firing ev a s k) = None"
  by (rule firing_cases [of ev a s k]) simp_all

lemma offers_afterRead [simp]: "offers (afterRead v err s) = None"
  by (simp add: afterRead_def split: option.split)

lemma pool_frames [simp]:
  "inUse (ticked s) = inUse s" "inUse (netcall op s) = inUse s" "inUse (go g s) = inUse s" "inUse (push v m ts x s) = inUse s"
  "inUse (settle p out s) = inUse s" "inUse (sendCallback cb s) = inUse s" "inUse (addErrorMetrics v ts s) = inUse s"
  "inUse (addCounterMetrics v m ts s) = inUse s" "inUse (addDurationMetrics v d m ts s) = inUse s"
  "inUse (writeMetrics v bs n e opts s) = inUse s" "inUse (readBefore v c d s) = inUse s" "inUse (destroyClose v r s) = inUse s"
  "inUse (wrote c bs n d' err s) = inUse s" "inUse (on ev h s) = inUse s"
  "inUse (snd (setTimeout v ms s)) = inUse s" "inUse (snd (destroyLocked v s)) = inUse s"
  by (auto simp: ticked_def netcall_def go_def push_def settle_def sendCallback_def addErrorMetrics_def addCounterMetrics_def
      addDurationMetrics_def writeMetrics_def readBefore_def destroyClose_def wrote_def on_def setTimeout_def destroyLocked_def
      Let_def split: option.split prod.split)

lemma heap_frames [simp]:
  "heap (ticked s) = heap s" "heap (netcall op s) = heap s" "heap (go g s) = heap s" "heap (push v m ts x s) = heap s"
  "heap (settle p out s) = heap s" "heap (sendCallback cb s) = heap s" "heap (addErrorMetrics v ts s) = heap s"
  "heap (addCounterMetrics v m ts s) = heap s" "heap (addDurationMetrics v d m ts s) = heap s"
  "heap (writeMetrics v bs n e opts s) = heap s" "heap (readBefore v c d s) = heap s" "heap (destroyClose v r s) = heap s"
  "heap (wrote c bs n d' err s) = heap s" "heap (on ev h s) = heap s"
  "heap (snd (setTimeout v ms s)) = heap s" "heap (snd (destroyLocked v s)) = heap s"
  by (auto simp: ticked_def netcall_def go_def push_def settle_def sendCallback_def addErrorMetrics_def addCounterMetrics_def
      addDurationMetrics_def writeMetrics_def readBefore_def destroyClose_def wrote_def on_def setTimeout_def destroyLocked_def
      Let_def split: option.split prod.split)

lemma untouched_pool: "untouched s t \<Longrightarrow> inUse t = inUse s" "untouched s t \<Longrightarrow> heap t = heap s"
  by (simp_all add: untouched_def)

lemma connecting_pool:
  "connectPrepare sb a h s = (e, s1) \<Longrightarrow> inUse s1 = inUse s \<and> heap s1 = heap s"
  "addDurationMetricsFor v m ts (resolve v co) s = (e, s1) \<Longrightarrow> inUse s1 = inUse s \<and> heap s1 = heap s"
  "dialed v co ts s = (e, s1) \<Longrightarrow> inUse s1 = inUse s \<and> heap s1 = heap s"
proof -
  show "connectPrepare sb a h s = (e, s1) \<Longrightarrow> inUse s1 = inUse s \<and> heap s1 = heap s"
    by (drule connectPrepareD) auto
  show "addDurationMetricsFor v m ts (resolve v co) s = (e, s1) \<Longrightarrow> inUse s1 = inUse s \<and> heap s1 = heap s"
    using addDurationMetricsFor_untouched [where fn = "resolve v co" and s = s, OF resolve_untouched] untouched_pool
    by (metis snd_conv)
  show "dialed v co ts s = (e, s1) \<Longrightarrow> inUse s1 = inUse s \<and> heap s1 = heap s"
    using dialed_untouched [of s v co ts] untouched_pool by (metis snd_conv)
qed

lemma buffer_take:
  assumes "buffer_inv w" "bufferAt w p = None" "b \<notin> set (inUse (sk w))" "bufferAt w' = (bufferAt w)(p \<mapsto> b)"
    "inUse (sk w') = b # inUse (sk w)" "ran w' \<le> length (sent (sk w'))"
  shows "buffer_inv w'"
  using inj_upd_fresh [of "bufferAt w" b p] assms by (simp add: buffer_inv_def)

lemma buffer_read:
  assumes "buffer_inv w" "pool_law v" "offers (pcs w i) = None"
  shows "buffer_inv (dataRead v i c bs err w)"
proof -
  let ?s2 = "gotBytes v c bs (sk w)"
  let ?b = "PoolGet v (tick ?s2) (inUse ?s2)"
  let ?s3 = "bufferFilled v bs ?s2"
  have in3: "inUse ?s3 = ?b # inUse (sk w)" by (simp add: bufferFilled_def Let_def)
  have fresh: "?b \<notin> set (inUse (sk w))" using assms(2) by (simp add: pool_law_def)
  show ?thesis
  proof (cases "prepareCallback (Some ?b) ''data'' [ArgBytes ?b] ?s3")
    case None
    then have d: "dataRead v i c bs err w = goto i (ReadCheck err) (w\<lparr>sk := bufferPut (Some ?b) ?s3\<rparr>)"
      by (simp add: dataRead_def Let_def)
    show ?thesis unfolding d using assms(1,3) in3 by - (erule buffer_keep; simp add: bufferPut_def)
  next
    case (Some cb)
    then have d: "dataRead v i c bs err w = goto i (Sending cb (ReadCheck err)) (w\<lparr>sk := ?s3\<rparr>)" "cbCleanup cb = Some ?b"
      by (simp_all add: dataRead_def Let_def prepareCallback_event)
    have "bufferAt (dataRead v i c bs err w) p = ((bufferAt w)(Offered i \<mapsto> ?b)) p" for p
      by (cases p) (simp_all add: d)
    then have "bufferAt (dataRead v i c bs err w) = (bufferAt w)(Offered i \<mapsto> ?b)" by blast
    then show ?thesis
      using assms(1,3) fresh in3 by (intro buffer_take [OF assms(1), of "Offered i" ?b]) (simp_all add: d(1) buffer_inv_def)
  qed
qed

lemma buffer_inv_step: "step G v sb w w' \<Longrightarrow> pool_law v \<Longrightarrow> pcs_inv w \<Longrightarrow> buffer_inv w \<Longrightarrow> buffer_inv w'"
proof (induction rule: step.induct)
  case (send w i cb k)
  let ?w' = "goto i k (onSock (sendCallback cb) w)"
  have le: "ran w \<le> length (sent (sk w))" using send.prems(3) by (simp add: buffer_inv_def)
  have "bufferAt ?w' p = ((bufferAt w)(Offered i := None, Queued (length (sent (sk w))) := cbCleanup cb)) p" for p
    using le offers_continuations(1) [OF send.prems(2) send.hyps(1)] by (cases p) (auto simp: nth_append)
  then have "bufferAt ?w' = (bufferAt w)(Offered i := None, Queued (length (sent (sk w))) := cbCleanup cb)" by blast
  then show ?case using send le by (intro buffer_pass [OF send.prems(3), of "Offered i"]) simp_all
next
  case (send_abort w i cb k)
  let ?w' = "goto i k (onSock (\<lambda>s. bufferPut (cbCleanup cb) (ticked s)) w)"
  have "bufferAt ?w' p = ((bufferAt w)(Offered i := None)) p" for p
    using offers_continuations(1) [OF send_abort.prems(2) send_abort.hyps(1)] by (cases p) simp_all
  then have "bufferAt ?w' = (bufferAt w)(Offered i := None)" by blast
  moreover have "inUse (bufferPut x (ticked s)) = inUse (bufferPut x s)" for x s by (simp add: bufferPut_def split: option.split)
  ultimately show ?case
    using send_abort by (intro buffer_put [OF send_abort.prems(3), of "Offered i"]) (simp_all add: buffer_inv_def)
next
  case (js_callback w)
  let ?w' = "w\<lparr>running := Some (sent (sk w) ! ran w), ran := Suc (ran w)\<rparr>"
  have "bufferAt ?w' p = ((bufferAt w)(Queued (ran w) := None, InHandler := cbCleanup (sent (sk w) ! ran w))) p" for p
    using js_callback.hyps by (cases p) auto
  then have "bufferAt ?w' = (bufferAt w)(Queued (ran w) := None, InHandler := cbCleanup (sent (sk w) ! ran w))" by blast
  then show ?case
    using js_callback by (intro buffer_pass [OF js_callback.prems(3), of "Queued (ran w)"]) simp_all
next
  case (js_return w cb)
  let ?w' = "onSock (bufferPut (cbCleanup cb)) (w\<lparr>running := None\<rparr>)"
  have "bufferAt ?w' p = ((bufferAt w)(InHandler := None)) p" for p by (cases p) simp_all
  then have "bufferAt ?w' = (bufferAt w)(InHandler := None)" by blast
  then show ?case
    using js_return by (intro buffer_put [OF js_return.prems(3), of InHandler]) (simp_all add: buffer_inv_def)
next
  case (read_data w i c bs err)
  then show ?case by (intro buffer_read) simp_all
qed (erule buffer_keep; (frule (1) offers_continuations)?; simp add: step_frames connecting_pool; fail)+

section \<open>Contents\<close>

lemma heap_read:
  assumes "pool_law v" "b \<in> set (inUse (sk w))"
  shows "heap (sk (dataRead v i c bs err w)) b = heap (sk w) b"
proof -
  let ?s2 = "gotBytes v c bs (sk w)"
  have "PoolGet v (tick ?s2) (inUse (sk w)) \<noteq> b" using assms by (auto simp: pool_law_def)
  then show ?thesis by (simp add: dataRead_def Let_def bufferFilled_def split: option.split)
qed

lemma heap_step:
  "step G v sb w w' \<Longrightarrow> pool_law v \<Longrightarrow> b \<in> set (inUse (sk w)) \<Longrightarrow> heap (sk w') b = heap (sk w) b"
proof (induction rule: step.induct)
  case (read_data w i c bs err)
  then show ?case by (simp add: heap_read)
qed (simp_all add: connecting_pool)

lemma buffer_inv_start: "buffer_inv (start m :: ('h, 'ts) world)"
proof -
  have "bufferAt (start m :: ('h, 'ts) world) p = None" for p by (cases p) (simp_all add: start_def newSocket_def)
  then have "bufferAt (start m :: ('h, 'ts) world) = (\<lambda>_. None)" by blast
  then show ?thesis by (simp add: buffer_inv_def start_def newSocket_def)
qed

text \<open>The pool is a parameter of the machine; its law is what makes the invariant hold.\<close>

interpretation pooled: transition_system "\<lambda>w. w = start m \<and> pool_law v" "step G v sb" "\<lambda>w. pool_law v \<and> mach_inv w \<and> buffer_inv w"
  by unfold_locales (auto simp: buffer_inv_start machine.inv_init [OF refl] intro: buffer_inv_step mach_inv_step mach_invD(1))

lemma buffers_inv:
  assumes "reachable G v sb m w" "pool_law v"
  shows "buffer_inv w"
proof -
  have "reach (\<lambda>w. w = start m \<and> pool_law v) (step G v sb) w"
    using assms by (simp cong: conj_cong)
  then show ?thesis using pooled.reach_inv by blast
qed

lemma owner_unique:
  assumes "buffer_inv w" "b \<in> set (inUse (sk w))"
  shows "\<exists>!p. bufferAt w p = Some b"
proof -
  obtain p where p: "bufferAt w p = Some b" using assms by (auto simp: buffer_inv_def Map.ran_def)
  have "q = p" if "bufferAt w q = Some b" for q
    using assms(1) p that by (auto simp: buffer_inv_def dest!: inj_onD [of _ _ q p] simp: domI)
  with p show ?thesis by blast
qed

end
