(* ===== verification/EchoTCP.thy ===== *)
theory EchoTCP
  imports Ledger "HOL-Library.Sublist"
begin

text \<open>
  The TCP echo server of \<open>internal/echo/server_tcp.go\<close>: what one connection gets back
  (\<open>handleConnection\<close>, with \<open>io.Copy\<close> from the Go library), and the goroutines of the server as a
  step relation: any number of calls of \<open>Start\<close> and \<open>Stop\<close>, the accept loops, one goroutine per
  connection, the channel \<open>done\<close>, the listener and the \<open>WaitGroup\<close>.
\<close>

section \<open>One connection\<close>

definition Second :: duration where
  "Second = 1000000000"

definition defaultConnectionTimeout :: duration where
  "defaultConnectionTimeout = 5 * Second"

definition isConnectionClosed :: "golib \<Rightarrow> goerror option \<Rightarrow> bool" where
  "isConnectionClosed G err = (case err of
       None \<Rightarrow> False
     | Some e \<Rightarrow>
         if errors_Is e EOF then True
         else (let errMsg = ToLower G (Error e) in
           Contains errMsg ''use of closed network connection'' \<or>
           Contains errMsg ''connection reset by peer'' \<or>
           Contains errMsg ''broken pipe'' \<or>
           Contains errMsg ''connection refused''))"

text \<open>
  \<open>io.Copy\<close>: one round reads a chunk and an error, then writes the chunk and gets the number of
  bytes written and an error. The script of a connection lists what these calls return. The result
  is what was written and, once the copy has returned, its error; \<open>None\<close> there means that it
  still waits for the next read.
\<close>

record copyRound =
  crBytes :: "byte list"
  crErr :: "goerror option"
  crWritten :: nat
  crWriteErr :: "goerror option"

definition errInvalidWrite :: goerror where
  "errInvalidWrite = New ''invalid write result''"

definition ErrShortWrite :: goerror where
  "ErrShortWrite = New ''short write''"

definition copyWrite :: "copyRound \<Rightarrow> nat \<times> goerror option" where
  "copyWrite r = (if length (crBytes r) < crWritten r
     then (0, case crWriteErr r of None \<Rightarrow> Some errInvalidWrite | Some e \<Rightarrow> Some e)
     else (crWritten r, crWriteErr r))"

definition copyEnd :: "goerror \<Rightarrow> goerror option" where
  "copyEnd e = (if e = EOF then None else Some e)"

fun io_Copy :: "copyRound list \<Rightarrow> byte list \<times> goerror option option" where
  "io_Copy [] = ([], None)"
| "io_Copy (r # rs) =
     (if crBytes r = [] then
        (case crErr r of Some e \<Rightarrow> ([], Some (copyEnd e)) | None \<Rightarrow> io_Copy rs)
      else
        (let (nw, ew) = copyWrite r; out = take nw (crBytes r) in
         case ew of
           Some e \<Rightarrow> (out, Some (Some e))
         | None \<Rightarrow>
             if nw \<noteq> length (crBytes r) then (out, Some (Some ErrShortWrite))
             else (case crErr r of
                 Some e \<Rightarrow> (out, Some (copyEnd e))
               | None \<Rightarrow> (let (more, res) = io_Copy rs in (out @ more, res)))))"

text \<open>What \<open>handleConnection\<close> does, in order; log records carry their level and message.\<close>

datatype level = LevelDebug | LevelInfo | LevelWarn | LevelError

datatype connAct =
    SetReadDeadlineTo time
  | SetWriteDeadlineTo time
  | Echoed "byte list"
  | Logged level string
  | WgDone
  | CloseConn

text \<open>The body up to its end, and whether it got there (\<open>io.Copy\<close> may still be waiting).\<close>

definition handleBody ::
    "golib \<Rightarrow> time \<Rightarrow> goerror option \<Rightarrow> goerror option \<Rightarrow> copyRound list \<Rightarrow> connAct list \<times> bool" where
  "handleBody G now readErr writeErr rs =
     (let deadline = time_Add now defaultConnectionTimeout;
          before = [Logged LevelDebug ''New connection established'', SetReadDeadlineTo deadline] @
            (if readErr \<noteq> None then [Logged LevelInfo ''Failed to set read deadline''] else []) @
            [SetWriteDeadlineTo deadline] @
            (if writeErr \<noteq> None then [Logged LevelInfo ''Failed to set write deadline''] else []);
          (out, res) = io_Copy rs
      in case res of
           None \<Rightarrow> (before @ [Echoed out], False)
         | Some err \<Rightarrow>
             (before @ [Echoed out,
                if err \<noteq> None \<and> \<not> isConnectionClosed G err
                then Logged LevelError ''Error during echo operation''
                else Logged LevelDebug ''Connection closed''], True))"

definition handleConnection ::
    "golib \<Rightarrow> time \<Rightarrow> goerror option \<Rightarrow> goerror option \<Rightarrow> copyRound list \<Rightarrow> connAct list" where
  "handleConnection G now readErr writeErr rs =
     (let (acts, returned) = handleBody G now readErr writeErr rs
      in acts @ (if returned then [WgDone, CloseConn] else []))"

section \<open>The goroutines of the server\<close>

text \<open>
  Where a goroutine is. Connections are numbered in the order in which they are accepted.
  \<open>EAccept\<close> is the call of \<open>Accept\<close>, \<open>EAccErr\<close> the \<open>select\<close> after it failed, \<open>EAccepted\<close> the point
  before \<open>wg.Add\<close> and \<open>go\<close>; \<open>EHandle\<close> is the entry of \<open>handleConnection\<close>, \<open>ECopy\<close> the call of \<open>Read\<close> in its
  \<open>io.Copy\<close> (with the time, what setting the two deadlines returned, and the rounds so far), \<open>EWrite\<close> the call of
  \<open>Write\<close> there (with what was read: a first byte, the others and the error), \<open>EDeferred\<close> its deferred function,
  \<open>EClosing\<close> the call of \<open>Close\<close> in it. \<open>EStop\<close>, \<open>EStopListener\<close> and \<open>EStopWait\<close> are the three
  parts of \<open>Stop\<close> in the goroutine that called it.
\<close>

datatype epc =
    EUnused
  | EAccept
  | EAccErr
  | EAccepted nat
  | EHandle nat
  | ECopy nat time "goerror option" "goerror option" "copyRound list"
  | EWrite nat time "goerror option" "goerror option" "copyRound list" byte "byte list" "goerror option"
  | EDeferred nat
  | EClosing nat
  | EStop
  | EStopListener
  | EStopWait
  | EStopped
  | EPanicked
  | EEnded

record echo =
  doneClosed :: bool
  lnClosed :: bool
  wg :: int
  epcs :: "nat \<Rightarrow> epc"
  accepted :: nat
  closedConns :: "nat list"
  acts :: "(nat \<times> connAct list) list"

definition newEcho :: echo where
  "newEcho = \<lparr>doneClosed = False, lnClosed = False, wg = 0, epcs = (\<lambda>_. EUnused), accepted = 0,
     closedConns = [], acts = []\<rparr>"

definition at :: "nat \<Rightarrow> epc \<Rightarrow> echo \<Rightarrow> echo" where
  "at i k w = w\<lparr>epcs := (epcs w)(i := k)\<rparr>"

text \<open>A call of \<open>Start\<close> or \<open>Stop\<close>, in a goroutine of its own for \<open>Stop\<close>, which blocks.\<close>

inductive call :: "echo \<Rightarrow> echo \<Rightarrow> bool" where
  Start: "epcs w i = EUnused \<Longrightarrow> call w (at i EAccept (w\<lparr>wg := wg w + 1\<rparr>))"
| Stop: "epcs w i = EUnused \<Longrightarrow> call w (at i EStop w)"

text \<open>
  What the goroutines do by themselves. A closed listener gives no more connections, and a blocked
  \<open>Accept\<close> then returns an error; \<open>Accept\<close> may also fail for other reasons. Setting a deadline may
  fail, which is only logged. A deadline that was set makes a \<open>Read\<close> or \<open>Write\<close> that waits return an
  error when it expires; one that was not does nothing, and then only the client can make it return.
\<close>

definition ErrDeadlineExceeded :: goerror where
  "ErrDeadlineExceeded = NetError ''i/o timeout'' True"

inductive serve :: "golib \<Rightarrow> echo \<Rightarrow> echo \<Rightarrow> bool" for G where
  accept: "epcs w i = EAccept \<Longrightarrow> \<not> lnClosed w \<Longrightarrow>
    serve G w (at i (EAccepted (accepted w)) (w\<lparr>accepted := Suc (accepted w)\<rparr>))"
| accept_err: "epcs w i = EAccept \<Longrightarrow> serve G w (at i EAccErr w)"
| accept_return: "epcs w i = EAccErr \<Longrightarrow> doneClosed w \<Longrightarrow> serve G w (at i EEnded (w\<lparr>wg := wg w - 1\<rparr>))"
| accept_continue: "epcs w i = EAccErr \<Longrightarrow> \<not> doneClosed w \<Longrightarrow> serve G w (at i EAccept w)"
| spawn: "epcs w i = EAccepted c \<Longrightarrow> epcs w j = EUnused \<Longrightarrow>
    serve G w (at j (EHandle c) (at i EAccept (w\<lparr>wg := wg w + 1\<rparr>)))"
| handle_deadlines: "epcs w i = EHandle c \<Longrightarrow> serve G w (at i (ECopy c now re we []) w)"
| read_deadline: "epcs w i = ECopy c now None we rs \<Longrightarrow> snd (io_Copy rs) = None \<Longrightarrow>
    serve G w (at i (ECopy c now None we (rs @ [\<lparr>crBytes = [], crErr = Some ErrDeadlineExceeded, crWritten = 0, crWriteErr = None\<rparr>])) w)"
| write_deadline: "epcs w i = EWrite c now re None rs b bs err \<Longrightarrow>
    serve G w (at i (ECopy c now re None
      (rs @ [\<lparr>crBytes = b # bs, crErr = err, crWritten = n, crWriteErr = Some ErrDeadlineExceeded\<rparr>])) w)"
| handle_body: "epcs w i = ECopy c now re we rs \<Longrightarrow> handleBody G now re we rs = (as, True) \<Longrightarrow>
    serve G w (at i (EDeferred c) (w\<lparr>acts := acts w @ [(c, as)]\<rparr>))"
| handle_done: "epcs w i = EDeferred c \<Longrightarrow> serve G w (at i (EClosing c) (w\<lparr>wg := wg w - 1\<rparr>))"
| handle_close: "epcs w i = EClosing c \<Longrightarrow> serve G w (at i EEnded (w\<lparr>closedConns := closedConns w @ [c]\<rparr>))"
| stop_done: "epcs w i = EStop \<Longrightarrow> \<not> doneClosed w \<Longrightarrow> serve G w (at i EStopListener (w\<lparr>doneClosed := True\<rparr>))"
| stop_panic: "epcs w i = EStop \<Longrightarrow> doneClosed w \<Longrightarrow> serve G w (at i EPanicked w)"
| stop_listener: "epcs w i = EStopListener \<Longrightarrow> serve G w (at i EStopWait (w\<lparr>lnClosed := True\<rparr>))"
| stop_wait: "epcs w i = EStopWait \<Longrightarrow> wg w = 0 \<Longrightarrow> serve G w (at i EStopped w)"

text \<open>
  What the clients make happen: a \<open>Read\<close> returns what they sent, or that they closed the connection or
  broke it; a \<open>Write\<close> returns as they read.
\<close>

inductive peer :: "echo \<Rightarrow> echo \<Rightarrow> bool" where
  read_bytes: "epcs w i = ECopy c now re we rs \<Longrightarrow> snd (io_Copy rs) = None \<Longrightarrow>
    peer w (at i (EWrite c now re we rs b bs err) w)"
| read_empty: "epcs w i = ECopy c now re we rs \<Longrightarrow> snd (io_Copy rs) = None \<Longrightarrow>
    peer w (at i (ECopy c now re we (rs @ [\<lparr>crBytes = [], crErr = err, crWritten = 0, crWriteErr = None\<rparr>])) w)"
| write_returns: "epcs w i = EWrite c now re we rs b bs err \<Longrightarrow>
    peer w (at i (ECopy c now re we (rs @ [\<lparr>crBytes = b # bs, crErr = err, crWritten = n, crWriteErr = werr\<rparr>])) w)"

definition echoStep :: "golib \<Rightarrow> echo \<Rightarrow> echo \<Rightarrow> bool" where
  "echoStep G w w' \<longleftrightarrow> call w w' \<or> serve G w w' \<or> peer w w'"

abbreviation echoReach :: "golib \<Rightarrow> echo \<Rightarrow> bool" where
  "echoReach G \<equiv> reach (\<lambda>w. w = newEcho) (echoStep G)"

text \<open>A run with \<open>n\<close> steps of the server and any steps of the clients in between.\<close>

inductive turns :: "golib \<Rightarrow> nat \<Rightarrow> echo \<Rightarrow> echo \<Rightarrow> bool" for G where
  turns_none: "turns G 0 w w"
| turns_serve: "turns G n w u \<Longrightarrow> serve G u w' \<Longrightarrow> turns G (Suc n) w w'"
| turns_peer: "turns G n w u \<Longrightarrow> peer u w' \<Longrightarrow> turns G n w w'"

section \<open>What one connection gets back\<close>

text \<open>The rounds up to the one with which the copy ends, and the bytes that arrived in them.\<close>

definition endsCopy :: "copyRound \<Rightarrow> bool" where
  "endsCopy r \<longleftrightarrow> crErr r \<noteq> None \<or> (crBytes r \<noteq> [] \<and> (snd (copyWrite r) \<noteq> None \<or> fst (copyWrite r) \<noteq> length (crBytes r)))"

fun copied :: "copyRound list \<Rightarrow> copyRound list" where
  "copied [] = []"
| "copied (r # rs) = r # (if endsCopy r then [] else copied rs)"

definition received :: "copyRound list \<Rightarrow> byte list" where
  "received rs = concat (map crBytes (copied rs))"

lemma copyWrite_le: "fst (copyWrite r) \<le> length (crBytes r)"
  by (simp add: copyWrite_def)

lemma io_Copy_prefix: "prefix (fst (io_Copy rs)) (received rs)"
proof (induction rs)
  case (Cons r rs)
  have "prefix (take k (crBytes r)) (crBytes r @ ys)" for k ys by (simp add: take_is_prefix prefix_prefix)
  with Cons show ?case
    by (auto simp: received_def endsCopy_def Let_def take_is_prefix split: option.split prod.split)
qed (simp add: received_def)

lemma io_Copy_all: "snd (io_Copy rs) = Some None \<Longrightarrow> fst (io_Copy rs) = received rs"
  by (induction rs) (auto simp: received_def endsCopy_def Let_def split: option.splits prod.splits if_splits)

lemma io_Copy_returns: "snd (io_Copy rs) \<noteq> None \<longleftrightarrow> (\<exists>r \<in> set rs. endsCopy r)"
  by (induction rs) (auto simp: endsCopy_def Let_def split: option.split prod.split)

lemma io_Copy_clean:
  "\<forall>r \<in> set rs. crWriteErr r = None \<and> crWritten r = length (crBytes r) \<Longrightarrow>
   fst (io_Copy rs) = received rs \<and> (snd (io_Copy rs) = Some (Some e) \<longrightarrow> (\<exists>r \<in> set rs. crErr r = Some e \<and> e \<noteq> EOF))"
  by (induction rs) (auto simp: received_def endsCopy_def copyWrite_def copyEnd_def Let_def split: option.splits prod.splits if_splits)

section \<open>Invariants of the server\<close>

lemma at_simps [simp]:
  "epcs (at i k w) = (epcs w)(i := k)" "doneClosed (at i k w) = doneClosed w" "lnClosed (at i k w) = lnClosed w"
  "wg (at i k w) = wg w" "accepted (at i k w) = accepted w" "closedConns (at i k w) = closedConns w"
  "acts (at i k w) = acts w"
  by (simp_all add: at_def)

text \<open>Which goroutines the \<open>WaitGroup\<close> counts.\<close>

fun counted :: "epc \<Rightarrow> nat" where
  "counted EAccept = 1"
| "counted EAccErr = 1"
| "counted (EAccepted c) = 1"
| "counted (EHandle c) = 1"
| "counted (ECopy c now re we rs) = 1"
| "counted (EWrite c now re we rs b bs err) = 1"
| "counted (EDeferred c) = 1"
| "counted _ = 0"

definition count_inv :: "echo \<Rightarrow> bool" where
  "count_inv w \<longleftrightarrow> finite {i. epcs w i \<noteq> EUnused} \<and> wg w = int (weight EUnused counted (epcs w))"

lemma count_at:
  assumes "count_inv w" "epcs u = epcs w" "wg u = wg w - int (counted (epcs w i)) + int (counted k)"
  shows "count_inv (at i k u)"
  using assms finite_upd [of "epcs w" EUnused i k] weight_int [of "epcs w" EUnused counted i k]
  by (simp add: count_inv_def)

lemma count_call: "call w w' \<Longrightarrow> count_inv w \<Longrightarrow> count_inv w'"
  by (induction rule: call.induct) (erule count_at; simp)+

lemma count_serve: "serve G w w' \<Longrightarrow> count_inv w \<Longrightarrow> count_inv w'"
proof (induction rule: serve.induct)
  case (spawn w i c j)
  then have "count_inv (at i EAccept w)" by - (erule count_at; simp)
  moreover have "i \<noteq> j" using spawn(1,2) by auto
  ultimately show ?case using spawn(1,2) by - (erule count_at; simp)
qed (erule count_at; simp)+

lemma count_peer: "peer w w' \<Longrightarrow> count_inv w \<Longrightarrow> count_inv w'"
  by (induction rule: peer.induct) (erule count_at; simp)+

text \<open>The connection a goroutine has still to close.\<close>

fun holdsConn :: "epc \<Rightarrow> nat option" where
  "holdsConn (EAccepted c) = Some c"
| "holdsConn (EHandle c) = Some c"
| "holdsConn (ECopy c now re we rs) = Some c"
| "holdsConn (EWrite c now re we rs b bs err) = Some c"
| "holdsConn (EDeferred c) = Some c"
| "holdsConn (EClosing c) = Some c"
| "holdsConn _ = None"

definition conn_inv :: "echo \<Rightarrow> bool" where
  "conn_inv w \<longleftrightarrow> ledger (holdsConn \<circ> epcs w) (closedConns w) (accepted w)"

lemma conn_at:
  assumes "conn_inv w" "epcs u = epcs w" "holdsConn k = holdsConn (epcs w i)"
    "closedConns u = closedConns w" "accepted u = accepted w"
  shows "conn_inv (at i k u)"
proof -
  have "holdsConn \<circ> epcs (at i k u) = holdsConn \<circ> epcs w" using assms(2,3) by auto
  then show ?thesis using assms(1,4,5) by (simp add: conn_inv_def)
qed

lemma conn_call: "call w w' \<Longrightarrow> conn_inv w \<Longrightarrow> conn_inv w'"
  by (induction rule: call.induct) (erule conn_at; simp)+

lemma holds_comp [simp]: "(holdsConn \<circ> f(i := k)) = (holdsConn \<circ> f)(i := holdsConn k)"
  by auto

lemma conn_serve: "serve G w w' \<Longrightarrow> conn_inv w \<Longrightarrow> conn_inv w'"
proof (induction rule: serve.induct)
  case (accept w i)
  then show ?case using ledger_new [of "holdsConn \<circ> epcs w" _ _ i] by (simp add: conn_inv_def)
next
  case (spawn w i c j)
  then have "i \<noteq> j" by auto
  with spawn show ?case using ledger_pass [of "holdsConn \<circ> epcs w" _ _ i c j] by (simp add: conn_inv_def)
next
  case (handle_close w i c)
  then show ?case using ledger_pay [of "holdsConn \<circ> epcs w" _ _ i c] by (simp add: conn_inv_def)
qed (erule conn_at; simp)+

lemma conn_peer: "peer w w' \<Longrightarrow> conn_inv w \<Longrightarrow> conn_inv w'"
  by (induction rule: peer.induct) (erule conn_at; simp)+

text \<open>
  Of all the goroutines that call \<open>Stop\<close>, the one that got past \<open>close(s.done)\<close>; the listener is closed
  after \<open>done\<close>; and once \<open>Stop\<close> has returned nobody has a connection to serve.
\<close>

fun past :: "epc \<Rightarrow> bool" where
  "past EStopListener = True"
| "past EStopWait = True"
| "past EStopped = True"
| "past _ = False"

fun serving :: "epc \<Rightarrow> bool" where
  "serving (EAccepted c) = True"
| "serving (EHandle c) = True"
| "serving (ECopy c now re we rs) = True"
| "serving (EWrite c now re we rs b bs err) = True"
| "serving (EDeferred c) = True"
| "serving _ = False"

definition stop_inv :: "echo \<Rightarrow> bool" where
  "stop_inv w \<longleftrightarrow> (doneClosed w \<longleftrightarrow> (\<exists>i. past (epcs w i))) \<and> (\<forall>i j. past (epcs w i) \<and> past (epcs w j) \<longrightarrow> i = j) \<and>
     (\<forall>i. epcs w i = EStopWait \<or> epcs w i = EStopped \<longrightarrow> lnClosed w) \<and> (lnClosed w \<longrightarrow> doneClosed w) \<and>
     (\<forall>i j. epcs w i = EStopped \<longrightarrow> \<not> serving (epcs w j))"

lemma counted_serving: "counted k = 0 \<Longrightarrow> \<not> serving k"
  by (cases k) simp_all

lemma wait_over: "count_inv w \<Longrightarrow> wg w = 0 \<Longrightarrow> counted (epcs w j) = 0"
  using weight_zero [of "epcs w" EUnused counted] by (simp add: count_inv_def)

lemma not_stopped: "stop_inv w \<Longrightarrow> serving (epcs w i) \<or> \<not> lnClosed w \<Longrightarrow> \<forall>x. epcs w x \<noteq> EStopped"
  unfolding stop_inv_def by blast

lemma stop_at:
  assumes "stop_inv w" "epcs u = epcs w" "doneClosed u = doneClosed w" "lnClosed u = lnClosed w"
    "\<not> past k" "\<not> past (epcs w i)" "serving k \<Longrightarrow> \<forall>x. epcs w x \<noteq> EStopped"
  shows "stop_inv (at i k u)"
proof -
  have "k \<noteq> EStopped" "k \<noteq> EStopWait" using assms(5) by auto
  then show ?thesis
    using assms unfolding stop_inv_def by (simp add: fun_upd_apply split: if_splits) metis
qed

lemma stop_serving:
  assumes "stop_inv w" "serving (epcs w i)" "\<not> past k" "epcs u = epcs w" "doneClosed u = doneClosed w" "lnClosed u = lnClosed w"
  shows "stop_inv (at i k u)"
proof (rule stop_at [OF assms(1,4,5,6,3)])
  show "\<not> past (epcs w i)" using assms(2) by (cases "epcs w i") simp_all
  show "\<forall>x. epcs w x \<noteq> EStopped" using not_stopped [OF assms(1)] assms(2) by blast
qed

lemma stop_call: "call w w' \<Longrightarrow> stop_inv w \<Longrightarrow> stop_inv w'"
  by (induction rule: call.induct) (erule stop_at; simp)+

lemma stop_serve: "serve G w w' \<Longrightarrow> count_inv w \<Longrightarrow> stop_inv w \<Longrightarrow> stop_inv w'"
proof (induction rule: serve.induct)
  case (accept w i)
  then show ?case using not_stopped [OF accept.prems(2), of i] by - (erule stop_at; simp)
next
  case (spawn w i c j)
  then have "stop_inv (at i EAccept w)" by - (erule stop_at; simp)
  moreover have "i \<noteq> j" "\<forall>x. epcs w x \<noteq> EStopped"
    using spawn(1,2) not_stopped [OF spawn.prems(2), of i] by auto
  ultimately show ?case using spawn(1,2) by - (erule stop_at; simp)
next
  case (stop_done w i)
  then show ?case unfolding stop_inv_def by (auto split: if_splits)
next
  case (stop_listener w i)
  then have "doneClosed w" unfolding stop_inv_def by (metis past.simps(1))
  with stop_listener show ?case unfolding stop_inv_def by (auto split: if_splits)
next
  case (stop_wait w i)
  have idle: "\<not> serving (epcs w j)" for j
    using counted_serving [OF wait_over [OF stop_wait.prems(1) stop_wait.hyps(2)]] .
  have "past (epcs w i)" using stop_wait by simp
  then show ?case using stop_wait.hyps(1) stop_wait.prems(2) idle unfolding stop_inv_def by (auto split: if_splits)
qed ((erule stop_serving; simp; fail) | (erule stop_at; simp; fail))+

lemma stop_peer: "peer w w' \<Longrightarrow> stop_inv w \<Longrightarrow> stop_inv w'"
  by (induction rule: peer.induct) (erule stop_serving; simp)+

definition echo_inv :: "echo \<Rightarrow> bool" where
  "echo_inv w \<longleftrightarrow> count_inv w \<and> conn_inv w \<and> stop_inv w"

lemma echo_inv_step: "echo_inv w \<Longrightarrow> echoStep G w w' \<Longrightarrow> echo_inv w'"
  unfolding echo_inv_def echoStep_def
  by (elim disjE conjE) (simp_all add: count_call count_serve count_peer conn_call conn_serve conn_peer stop_call stop_serve stop_peer)

lemma echo_inv_new: "echo_inv newEcho"
  by (simp add: echo_inv_def count_inv_def conn_inv_def stop_inv_def newEcho_def weight_def ledger_empty comp_def)

interpretation echo: transition_system "\<lambda>w. w = newEcho" "echoStep G" echo_inv
  by unfold_locales (simp_all add: echo_inv_new echo_inv_step)

lemma echo_invD:
  "echo_inv w \<Longrightarrow> count_inv w" "echo_inv w \<Longrightarrow> conn_inv w" "echo_inv w \<Longrightarrow> stop_inv w"
  by (simp_all add: echo_inv_def)

section \<open>Stop comes to its end\<close>

text \<open>
  How many steps a goroutine can still take by itself once \<open>done\<close> and the listener are closed; and
  the goroutines that only their client can set free, as their deadline could not be set.
\<close>

fun work :: "epc \<Rightarrow> nat" where
  "work (EAccepted c) = 8"
| "work EAccept = 2"
| "work EAccErr = 1"
| "work (EHandle c) = 5"
| "work (ECopy c now re we rs) = (if snd (io_Copy rs) = None then 4 else 3)"
| "work (EWrite c now re we rs b bs err) = 4"
| "work (EDeferred c) = 2"
| "work (EClosing c) = 1"
| "work EStop = 3"
| "work EStopListener = 2"
| "work EStopWait = 1"
| "work _ = 0"

fun atClientsMercy :: "epc \<Rightarrow> bool" where
  "atClientsMercy (ECopy c now re we rs) = (re \<noteq> None \<and> snd (io_Copy rs) = None)"
| "atClientsMercy (EWrite c now re we rs b bs err) = (we \<noteq> None)"
| "atClientsMercy _ = False"

lemma io_Copy_ended: "r \<in> set rs \<Longrightarrow> endsCopy r \<Longrightarrow> snd (io_Copy rs) \<noteq> None"
  using io_Copy_returns by blast

lemma read_deadline_ends:
  "snd (io_Copy (rs @ [\<lparr>crBytes = bs, crErr = Some e, crWritten = n, crWriteErr = werr\<rparr>])) \<noteq> None"
  by (rule io_Copy_ended) (auto simp: endsCopy_def)

lemma write_deadline_ends:
  "snd (io_Copy (rs @ [\<lparr>crBytes = b # bs, crErr = err, crWritten = n, crWriteErr = Some e\<rparr>])) \<noteq> None"
  by (rule io_Copy_ended) (auto simp: endsCopy_def copyWrite_def)

lemma handleBody_returns: "snd (handleBody G now re we rs) = (snd (io_Copy rs) \<noteq> None)"
  by (simp add: handleBody_def Let_def split: prod.split option.split)

definition workload :: "echo \<Rightarrow> nat" where
  "workload w = weight EUnused work (epcs w)"

lemma workload_at:
  assumes "count_inv w" "epcs u = epcs w" "work k < work (epcs w i)"
  shows "workload (at i k u) < workload w"
  using assms weight_move [of "epcs w" EUnused work k i] by (simp add: workload_def count_inv_def)

lemma serve_works:
  assumes "serve G w w'" "count_inv w" "lnClosed w" "doneClosed w"
  shows "workload w' < workload w"
  using assms
proof (induction rule: serve.induct)
  case (spawn w i c j)
  let ?f = "(epcs w)(i := EAccept)"
  have fin: "finite {x. epcs w x \<noteq> EUnused}" using spawn.prems(1) by (simp add: count_inv_def)
  have "i \<noteq> j" using spawn(1,2) by auto
  then have "weight EUnused work (?f(j := EHandle c)) = weight EUnused work ?f + 5"
    using weight_upd [where f = ?f and g = work and j = j and k = "EHandle c", OF finite_upd [OF fin]] spawn(2) by simp
  moreover have "weight EUnused work ?f + 8 = weight EUnused work (epcs w) + 2"
    using weight_upd [where f = "epcs w" and g = work and j = i and k = EAccept, OF fin] spawn(1) by simp
  ultimately show ?case by (simp add: workload_def)
next
  case (read_deadline w i c now we rs)
  then show ?case by (intro workload_at) (simp_all add: read_deadline_ends)
next
  case (write_deadline w i c now re rs b bs err n)
  then show ?case by (intro workload_at) (simp_all add: write_deadline_ends)
next
  case (handle_body w i c now re we rs as)
  then have "work (epcs w i) = 3" using handleBody_returns [of G now re we rs] by simp
  with handle_body show ?case by (intro workload_at) auto
qed (simp_all add: workload_at)

lemma workload_stays:
  assumes "count_inv w" "epcs u = epcs w" "work k \<le> work (epcs w i)"
  shows "workload (at i k u) \<le> workload w"
proof (cases "work k < work (epcs w i)")
  case True
  then show ?thesis using workload_at [OF assms(1,2)] less_imp_le by blast
next
  case False
  then show ?thesis using assms weight_upd [of "epcs w" EUnused work i k] by (simp add: workload_def count_inv_def)
qed

lemma peer_works: "peer w w' \<Longrightarrow> count_inv w \<Longrightarrow> workload w' \<le> workload w"
  by (induction rule: peer.induct) (intro workload_stays; simp)+

lemma serve_keeps: "serve G w w' \<Longrightarrow> lnClosed w \<Longrightarrow> lnClosed w'"
  by (induction rule: serve.induct) simp_all

lemma peer_keeps: "peer w w' \<Longrightarrow> lnClosed w' = lnClosed w"
  by (induction rule: peer.induct) simp_all

lemma turns_run:
  assumes "turns G n w w'" "echo_inv w" "lnClosed w"
  shows "echo_inv w' \<and> lnClosed w' \<and> n + workload w' \<le> workload w"
  using assms
proof (induction rule: turns.induct)
  case (turns_serve n w u w')
  then have inv: "echo_inv u" "lnClosed u" "n + workload u \<le> workload w" by blast+
  then have "doneClosed u" by (auto simp: echo_inv_def stop_inv_def)
  with inv turns_serve.hyps(2) have "workload w' < workload u" by (auto intro: serve_works echo_invD(1))
  then show ?case using inv turns_serve.hyps(2) serve_keeps echo_inv_step [of u G w'] by (simp add: echoStep_def)
next
  case (turns_peer n w u w')
  then have inv: "echo_inv u" "lnClosed u" "n + workload u \<le> workload w" by blast+
  then show ?case
    using turns_peer.hyps(2) peer_works [of u w'] echo_invD(1) [of u] peer_keeps [of u w'] echo_inv_step [of u G w']
    by (simp add: echoStep_def)
qed simp

lemma waiter_stays:
  "serve G w w' \<Longrightarrow> epcs w i = EStopWait \<or> epcs w i = EStopped \<Longrightarrow> epcs w' i = EStopWait \<or> epcs w' i = EStopped"
  by (induction rule: serve.induct) auto

lemma waiter_peer:
  "peer w w' \<Longrightarrow> epcs w i = EStopWait \<or> epcs w i = EStopped \<Longrightarrow> epcs w' i = EStopWait \<or> epcs w' i = EStopped"
  by (induction rule: peer.induct) auto

lemma waiter_run:
  "turns G n w w' \<Longrightarrow> epcs w i = EStopWait \<Longrightarrow> epcs w' i = EStopWait \<or> epcs w' i = EStopped"
  by (induction rule: turns.induct) (auto dest: waiter_stays [where i = i] waiter_peer [where i = i])

lemma echo_unused: "count_inv w \<Longrightarrow> \<exists>j. epcs w j = EUnused"
  using ex_new_if_finite [of "{i. epcs w i \<noteq> EUnused}"] by (auto simp: count_inv_def)

lemma handler_moves:
  assumes "epcs w i = ECopy c now re we rs" "re = None \<or> snd (io_Copy rs) \<noteq> None"
  shows "\<exists>w'. serve G w w'"
proof (cases "snd (io_Copy rs) = None")
  case True
  then show ?thesis using read_deadline [of w i c now we rs G] assms by blast
next
  case False
  then have "snd (handleBody G now re we rs) = True" by (simp add: handleBody_returns)
  then show ?thesis using handle_body [OF assms(1), of G] by (metis prod.collapse)
qed

lemma counted_moves:
  assumes "count_inv w" "doneClosed w" "0 < counted (epcs w i)" "\<not> atClientsMercy (epcs w i)"
  shows "\<exists>w'. serve G w w'"
proof (cases "epcs w i")
  case (EAccepted c)
  then show ?thesis using spawn echo_unused [OF assms(1)] by blast
next
  case (EHandle c)
  then show ?thesis using handle_deadlines by blast
next
  case (ECopy c now re we rs)
  then show ?thesis using handler_moves [OF ECopy] assms(4) by simp
next
  case (EWrite c now re we rs b bs err)
  then show ?thesis using write_deadline [of w i c now re rs b bs err] assms(4) by auto
next
  case EAccept
  then show ?thesis using accept_err by blast
next
  case EAccErr
  then show ?thesis using accept_return assms(2) by blast
next
  case (EDeferred c)
  then show ?thesis using handle_done by blast
qed (use assms(3) in auto)

lemma waiter_moves:
  assumes "count_inv w" "doneClosed w" "epcs w i = EStopWait" "\<And>j. \<not> atClientsMercy (epcs w j)"
  shows "\<exists>w'. serve G w w'"
proof (cases "wg w = 0")
  case True
  then show ?thesis using stop_wait [OF assms(3)] by blast
next
  case False
  then have "weight EUnused counted (epcs w) \<noteq> 0" using assms(1) by (simp add: count_inv_def)
  then obtain j where "0 < counted (epcs w j)"
    using assms(1) weight_zero [of "epcs w" EUnused counted] by (auto simp: count_inv_def)
  then show ?thesis using counted_moves assms(1,2,4) by blast
qed

lemma counted_weight:
  assumes "finite {i. f i \<noteq> EUnused}"
  shows "weight EUnused counted f = card {i. counted (f i) = 1}"
proof -
  have c: "counted k \<noteq> 0 \<longleftrightarrow> counted k = 1" for k by (cases k) simp_all
  have "weight EUnused counted f = (\<Sum>i | f i \<noteq> EUnused. if counted (f i) = 1 then 1 else 0)"
    unfolding weight_def by (rule sum.cong [OF refl]) (use c in auto)
  also have "\<dots> = card {i. f i \<noteq> EUnused \<and> counted (f i) = 1}" using assms by (simp add: sum.If_cases Int_def)
  also have "{i. f i \<noteq> EUnused \<and> counted (f i) = 1} = {i. counted (f i) = 1}" by auto
  finally show ?thesis .
qed

lemma no_retry:
  "serve G w w' \<Longrightarrow> doneClosed w \<Longrightarrow> epcs w j = EAccErr \<Longrightarrow> epcs w' j \<noteq> EAccErr \<Longrightarrow> epcs w' j = EEnded"
  by (induction rule: serve.induct) (auto split: if_splits)

lemma echo_served: "echoReach G w \<Longrightarrow> serve G w w' \<Longrightarrow> echoReach G w'"
  by (erule reach_step) (simp add: echoStep_def)

lemma echo_called: "echoReach G w \<Longrightarrow> call w w' \<Longrightarrow> echoReach G w'"
  by (erule reach_step) (simp add: echoStep_def)

lemma echo_peer: "echoReach G w \<Longrightarrow> peer w w' \<Longrightarrow> echoReach G w'"
  by (erule reach_step) (simp add: echoStep_def)

lemma echo_turns: "turns G n w w' \<Longrightarrow> echoReach G w \<Longrightarrow> echoReach G w'"
  by (induction rule: turns.induct) (blast intro: echo_served echo_peer)+

section \<open>A concrete run\<close>

text \<open>
  Goroutine 0 is an accept loop, goroutine 2 serves the one connection, goroutine 1 calls \<open>Stop\<close>.
\<close>

definition exLib :: golib where
  "exLib = \<lparr>unicodeToLower = id, unicodeQuote = id\<rparr>"

definition exEcho1 :: echo where
  "exEcho1 = at 0 (EAccepted 0) ((at 0 EAccept (newEcho\<lparr>wg := 1\<rparr>))\<lparr>accepted := 1\<rparr>)"

definition exRound :: "byte list \<Rightarrow> goerror option \<Rightarrow> copyRound" where
  "exRound bs e = \<lparr>crBytes = bs, crErr = e, crWritten = length bs, crWriteErr = None\<rparr>"

definition exActs :: "golib \<Rightarrow> connAct list" where
  "exActs G = fst (handleBody G 0 None None [exRound [7] (Some EOF)])"

definition exEcho2 :: "golib \<Rightarrow> echo" where
  "exEcho2 G = at 2 (EClosing 0) ((at 0 EAccept exEcho1)\<lparr>acts := [(0, exActs G)], wg := 1\<rparr>)"

definition exEcho3 :: "golib \<Rightarrow> echo" where
  "exEcho3 G = at 1 EStopWait ((at 1 EStopListener ((at 1 EStop (exEcho2 G))\<lparr>doneClosed := True\<rparr>))\<lparr>lnClosed := True\<rparr>)"

definition exEcho4 :: "golib \<Rightarrow> echo" where
  "exEcho4 G = at 1 EStopped (at 0 EEnded ((at 0 EAccErr (exEcho3 G))\<lparr>wg := 0\<rparr>))"

lemma exEcho1_reach: "echoReach G exEcho1"
proof -
  let ?w1 = "at 0 EAccept (newEcho\<lparr>wg := 1\<rparr>)"
  have "call newEcho ?w1" using Start [of newEcho 0] by (simp add: newEcho_def)
  then have "echoReach G ?w1" by (rule echo_called [rotated]) (simp add: reach_init)
  moreover have "serve G ?w1 exEcho1" using accept [of ?w1 0 G] by (simp add: newEcho_def exEcho1_def)
  ultimately show ?thesis by (rule echo_served)
qed

lemma spawned_reach: "echoReach G (at 2 (EHandle 0) (at 0 EAccept (exEcho1\<lparr>wg := 2\<rparr>)))"
proof -
  have "serve G exEcho1 (at 2 (EHandle 0) (at 0 EAccept (exEcho1\<lparr>wg := 2\<rparr>)))"
    using spawn [of exEcho1 0 0 2 G] by (simp add: exEcho1_def newEcho_def)
  with exEcho1_reach show ?thesis by (rule echo_served)
qed

lemma copied_reach: "echoReach G (at 2 (ECopy 0 0 None None [exRound [7] (Some EOF)]) (at 0 EAccept (exEcho1\<lparr>wg := 2\<rparr>)))"
proof -
  let ?w = "at 0 EAccept (exEcho1\<lparr>wg := 2\<rparr>)"
  have "serve G (at 2 (EHandle 0) ?w) (at 2 (ECopy 0 0 None None []) ?w)"
    using handle_deadlines [of "at 2 (EHandle 0) ?w" 2 0 G 0 None None] by (simp add: at_def)
  moreover have "peer (at 2 (ECopy 0 0 None None []) ?w) (at 2 (EWrite 0 0 None None [] 7 [] (Some EOF)) ?w)"
    using read_bytes [of "at 2 (ECopy 0 0 None None []) ?w" 2 0 0 None None "[]" 7 "[]" "Some EOF"] by (simp add: at_def)
  moreover have "peer (at 2 (EWrite 0 0 None None [] 7 [] (Some EOF)) ?w) (at 2 (ECopy 0 0 None None [exRound [7] (Some EOF)]) ?w)"
    using write_returns [of "at 2 (EWrite 0 0 None None [] 7 [] (Some EOF)) ?w" 2 0 0 None None "[]" 7 "[]" "Some EOF" 1 None]
    by (simp add: at_def exRound_def)
  ultimately show ?thesis using spawned_reach echo_served echo_peer by blast
qed

lemma exEcho2_reach: "echoReach G (exEcho2 G)"
proof -
  let ?w1 = "at 2 (ECopy 0 0 None None [exRound [7] (Some EOF)]) (at 0 EAccept (exEcho1\<lparr>wg := 2\<rparr>))"
  let ?w2 = "at 2 (EDeferred 0) (?w1\<lparr>acts := [(0, exActs G)]\<rparr>)"
  have "handleBody G 0 None None [exRound [7] (Some EOF)] = (exActs G, True)"
    by (simp add: exActs_def handleBody_def Let_def exRound_def copyWrite_def)
  then have "serve G ?w1 ?w2"
    using handle_body [of ?w1 2 0 0 None None "[exRound [7] (Some EOF)]" G "exActs G"] by (simp add: exEcho1_def newEcho_def)
  moreover have "serve G ?w2 (exEcho2 G)"
    using handle_done [of ?w2 2 0 G] by (simp add: exEcho2_def at_def)
  ultimately show ?thesis using copied_reach echo_served by blast
qed

lemma exEcho3_reach: "echoReach G (exEcho3 G)"
proof -
  let ?w1 = "at 1 EStop (exEcho2 G)"
  let ?w2 = "at 1 EStopListener (?w1\<lparr>doneClosed := True\<rparr>)"
  have "call (exEcho2 G) ?w1" by (rule Stop) (simp add: exEcho2_def exEcho1_def newEcho_def)
  moreover have "serve G ?w1 ?w2" by (rule stop_done) (simp_all add: exEcho2_def exEcho1_def newEcho_def)
  moreover have "serve G ?w2 (exEcho3 G)" unfolding exEcho3_def by (rule stop_listener) simp
  ultimately show ?thesis
    using exEcho2_reach echo_served echo_called by blast
qed

lemma exEcho3_fields: "epcs (exEcho3 G) 1 = EStopWait" "epcs (exEcho3 G) 0 = EAccept" "epcs (exEcho3 G) 2 = EClosing 0"
  "doneClosed (exEcho3 G)" "wg (exEcho3 G) = 1" "accepted (exEcho3 G) = 1" "closedConns (exEcho3 G) = []"
  by (simp_all add: exEcho3_def exEcho2_def exEcho1_def newEcho_def del: One_nat_def)

lemma exEcho4_run: "turns G 3 (exEcho3 G) (exEcho4 G)"
proof -
  let ?w1 = "at 0 EAccErr (exEcho3 G)"
  let ?w2 = "at 0 EEnded (?w1\<lparr>wg := 0\<rparr>)"
  have "serve G (exEcho3 G) ?w1" by (rule accept_err) (rule exEcho3_fields)
  moreover have "serve G ?w1 ?w2" using accept_return [of ?w1 0 G] by (simp add: exEcho3_fields)
  moreover have "serve G ?w2 (exEcho4 G)"
    unfolding exEcho4_def by (rule stop_wait) (simp_all add: exEcho3_fields del: One_nat_def)
  ultimately show ?thesis unfolding numeral_3_eq_3 by (blast intro: turns_none turns_serve)
qed

text \<open>The same server with a client that stays idle and whose read deadline could not be set.\<close>

definition exIdle :: "goerror \<Rightarrow> echo" where
  "exIdle e = at 0 EEnded (at 1 EStopWait (at 2 (ECopy 0 0 (Some e) None [])
     (newEcho\<lparr>wg := 1, accepted := 1, doneClosed := True, lnClosed := True\<rparr>)))"

lemma exIdle_reach: "echoReach G (exIdle e)"
proof -
  let ?w = "at 0 EAccept (exEcho1\<lparr>wg := 2\<rparr>)"
  let ?c = "at 2 (ECopy 0 0 (Some e) None []) ?w"
  let ?s = "at 1 EStop ?c"
  let ?d = "at 1 EStopListener (?s\<lparr>doneClosed := True\<rparr>)"
  let ?l = "at 1 EStopWait (?d\<lparr>lnClosed := True\<rparr>)"
  have "serve G (at 2 (EHandle 0) ?w) ?c"
    using handle_deadlines [of "at 2 (EHandle 0) ?w" 2 0 G 0 "Some e" None] by (simp add: at_def)
  with spawned_reach have "echoReach G ?c" by (rule echo_served)
  moreover have "call ?c ?s" by (rule Stop) (simp add: exEcho1_def newEcho_def)
  ultimately have "echoReach G ?s" by (rule echo_called)
  moreover have "serve G ?s ?d" by (rule stop_done) (simp_all add: exEcho1_def newEcho_def)
  ultimately have "echoReach G ?d" by (rule echo_served)
  moreover have "serve G ?d ?l" by (rule stop_listener) simp
  ultimately have "echoReach G ?l" by (rule echo_served)
  moreover have "serve G ?l (at 0 EAccErr ?l)" by (rule accept_err) simp
  ultimately have "echoReach G (at 0 EAccErr ?l)" by (rule echo_served)
  moreover have "serve G (at 0 EAccErr ?l) (exIdle e)"
    using accept_return [of "at 0 EAccErr ?l" 0 G]
    by (simp add: exIdle_def exEcho1_def newEcho_def at_def fun_upd_twist)
  ultimately show ?thesis by (rule echo_served)
qed

section \<open>Properties\<close>

text \<open>
  C31. What a client of the TCP echo server gets back: a prefix of the bytes the server read from
  it, in order; all of them when the server could write each chunk it had read, and always when the copy ended without an
  error. The handler ends by reporting to the \<open>WaitGroup\<close> and closing the connection, and it logs an
  error only for an error that does not just say that the connection is gone.
\<close>

theorem echo_faithful:
  assumes "\<exists>r \<in> set rs. endsCopy r"
  shows "\<exists>before out lg err. handleConnection G now readErr writeErr rs = before @ [Echoed out, lg, WgDone, CloseConn] \<and>
    io_Copy rs = (out, Some err) \<and> (\<forall>bs. Echoed bs \<notin> set before) \<and> prefix out (received rs) \<and> (err = None \<longrightarrow> out = received rs) \<and>
    ((\<forall>r \<in> set rs. crWriteErr r = None \<and> crWritten r = length (crBytes r)) \<longrightarrow> out = received rs) \<and>
    (lg = Logged LevelError ''Error during echo operation'' \<longleftrightarrow> err \<noteq> None \<and> \<not> isConnectionClosed G err)"
proof -
  obtain out err where c: "io_Copy rs = (out, Some err)"
    using io_Copy_returns [of rs] assms by (metis option.exhaust prod.collapse)
  have "prefix out (received rs)" "err = None \<Longrightarrow> out = received rs"
    using io_Copy_prefix [of rs] io_Copy_all [of rs] by (simp_all add: c)
  moreover have "(\<forall>r \<in> set rs. crWriteErr r = None \<and> crWritten r = length (crBytes r)) \<Longrightarrow> out = received rs"
    using io_Copy_clean [of rs] by (simp add: c)
  ultimately show ?thesis
    by (intro exI conjI) (auto simp: handleConnection_def handleBody_def Let_def c split: if_splits)
qed

theorem echo_faithful_witness:
  "\<exists>before lg. handleConnection exLib 0 None None [exRound [1, 2] None, exRound [3] (Some EOF)] =
     before @ [Echoed [1, 2, 3], lg, WgDone, CloseConn]"
proof -
  let ?rs = "[exRound [1, 2] None, exRound [3] (Some EOF)]"
  have "\<exists>r \<in> set ?rs. endsCopy r" "received ?rs = [1, 2, 3]" "\<forall>r \<in> set ?rs. crWriteErr r = None \<and> crWritten r = length (crBytes r)"
    by (simp_all add: exRound_def endsCopy_def received_def copyWrite_def)
  then show ?thesis using echo_faithful [of ?rs exLib 0 None None] by metis
qed

text \<open>
  C28. No connection is lost and none is closed twice: in every interleaving of the goroutines of the
  TCP echo server, and with any number of calls of \<open>Start\<close> and \<open>Stop\<close>, each accepted connection is
  closed once, or it is in the hands of exactly one goroutine that has still to close it; and the
  counter of the \<open>WaitGroup\<close> is the number of goroutines it is meant to count, so that \<open>Done\<close> never
  takes it below zero.
\<close>

theorem echo_connections_closed_once:
  assumes "echoReach G w" "c < accepted w"
  shows "distinct (closedConns w) \<and> (c \<in> set (closedConns w)) \<noteq> (\<exists>!i. holdsConn (epcs w i) = Some c) \<and>
    wg w = int (card {i. counted (epcs w i) = 1})"
proof -
  have inv: "echo_inv w" by (rule echo.reach_inv [OF assms(1)])
  have l: "ledger (holdsConn \<circ> epcs w) (closedConns w) (accepted w)" using echo_invD(2) [OF inv] by (simp add: conn_inv_def)
  have "weight EUnused counted (epcs w) = card {i. counted (epcs w i) = 1}"
    using echo_invD(1) [OF inv] counted_weight by (simp add: count_inv_def)
  then show ?thesis
    using echo_invD(1) [OF inv] ledger_owner [OF l assms(2)] l by (simp add: count_inv_def ledger_def)
qed

theorem echo_connections_closed_once_witness:
  "(0 \<in> set (closedConns (exEcho3 exLib))) \<noteq> (\<exists>!i. holdsConn (epcs (exEcho3 exLib) i) = Some 0)"
  using echo_connections_closed_once [OF exEcho3_reach, of 0] by (simp add: exEcho3_fields)

text \<open>
  C29. After \<open>Stop\<close> has returned the TCP echo server serves nobody, whatever is called later: \<open>done\<close> and
  the listener are closed and no goroutine has a connection to serve. Only one call of \<open>Stop\<close> ever
  gets past closing \<open>done\<close>; an accept loop that fails because the listener was closed always finds
  \<open>done\<close> closed, so that it returns and does not try again.
\<close>

theorem echo_stop_final:
  assumes "echoReach G w"
  shows "(epcs w i = EStopped \<longrightarrow> doneClosed w \<and> lnClosed w \<and> \<not> serving (epcs w j)) \<and>
    (past (epcs w i) \<and> past (epcs w j) \<longrightarrow> i = j) \<and>
    (lnClosed w \<and> epcs w j = EAccErr \<and> serve G w w' \<longrightarrow> epcs w' j = EAccErr \<or> epcs w' j = EEnded)"
proof -
  have "stop_inv w" using echo.reach_inv [OF assms] by (rule echo_invD(3))
  moreover from this have "lnClosed w \<Longrightarrow> doneClosed w" "epcs w i = EStopped \<Longrightarrow> doneClosed w"
    by (auto simp: stop_inv_def)
  ultimately show ?thesis
    using no_retry [of G w w' j] unfolding stop_inv_def by blast
qed

theorem echo_stop_final_witness:
  "lnClosed (exEcho4 exLib) \<and> \<not> serving (epcs (exEcho4 exLib) 2)"
proof -
  have "echoReach exLib (exEcho4 exLib)"
    by (rule echo_turns [OF exEcho4_run exEcho3_reach])
  from echo_stop_final [OF this, of 1 2] show ?thesis by (simp add: exEcho4_def)
qed

text \<open>
  C30. \<open>Stop\<close> returns because of the deadlines: once it waits, the goroutines of the server take only
  a bounded number of steps as long as nobody calls \<open>Start\<close> or \<open>Stop\<close> again, whatever the clients
  send, read, or do not do in between; and when they can take no more, \<open>Stop\<close> has returned, or a
  handler waits in a \<open>Read\<close> or \<open>Write\<close> whose deadline could not be set. (A deadline that was set
  always lets the waiting call return, so that no client can hold up \<open>Stop\<close> then.)
\<close>

theorem echo_stop_returns:
  assumes "echoReach G w" "epcs w i = EStopWait" "turns G n w w'"
  shows "n \<le> workload w \<and> ((\<exists>w''. serve G w' w'') \<or> epcs w' i = EStopped \<or> (\<exists>j. atClientsMercy (epcs w' j)))"
proof -
  have inv: "echo_inv w" by (rule echo.reach_inv [OF assms(1)])
  then have "lnClosed w" using assms(2) by (auto simp: echo_inv_def stop_inv_def)
  note run = turns_run [OF assms(3) inv this]
  then have "doneClosed w'" by (auto simp: echo_inv_def stop_inv_def)
  then show ?thesis
    using run waiter_run [OF assms(3,2)] waiter_moves [of w' i G] echo_invD(1) [of w'] by auto
qed

theorem echo_stop_returns_witness: "3 \<le> workload (exEcho3 exLib) \<and> epcs (exEcho4 exLib) 1 = EStopped"
  using echo_stop_returns [OF exEcho3_reach exEcho3_fields(1) exEcho4_run] by (simp add: exEcho4_def)

text \<open>
  The exception is real: a failed \<open>SetReadDeadline\<close> is only logged, and then one idle client keeps
  \<open>Stop\<close> waiting until it closes its connection.
\<close>

lemma idle_client_blocks_stop:
  "echoReach G (exIdle e) \<and> epcs (exIdle e) 1 = EStopWait \<and> \<not> serve G (exIdle e) w' \<and> atClientsMercy (epcs (exIdle e) 2)"
proof -
  have "\<not> serve G (exIdle e) w'"
    by (rule notI, erule serve.cases) (auto simp: exIdle_def newEcho_def handleBody_def Let_def split: if_splits)
  then show ?thesis using exIdle_reach by (simp add: exIdle_def)
qed

text \<open>
  The deferred function of \<open>handleConnection\<close> reports to the \<open>WaitGroup\<close> before it closes the
  connection, so \<open>Stop\<close> may return while a connection is still open.
\<close>

lemma stop_returns_before_close:
  "\<exists>w. echoReach G w \<and> epcs w 1 = EStopped \<and> accepted w = 1 \<and> closedConns w = []"
proof -
  have "echoReach G (exEcho4 G)" by (rule echo_turns [OF exEcho4_run exEcho3_reach])
  then show ?thesis
    by (intro exI [of _ "exEcho4 G"]) (simp add: exEcho4_def exEcho3_fields)
qed

text \<open>A second call of \<open>Stop\<close> closes a closed channel, which panics.\<close>

lemma second_stop_panics:
  assumes "echoReach G w" "epcs w i = EStopped" "epcs w j = EStop" "serve G w w'" "epcs w' j \<noteq> EStop"
  shows "epcs w' j = EPanicked"
proof -
  have "doneClosed w" using echo_invD(3) [OF echo.reach_inv [OF assms(1)]] assms(2) unfolding stop_inv_def by (metis past.simps(3))
  with assms(4,3,5) show ?thesis by (induction rule: serve.induct) (auto split: if_splits)
qed

end
