(* ===== verification/RoundTrip.thy ===== *)
theory RoundTrip
  imports Buffers EchoTCP
begin

text \<open>
  A socket talks to the TCP echo server: the machine of the socket and one connection of the server
  (\<open>handleConnection\<close>, whose \<open>io.Copy\<close> is that of the theory \<open>EchoTCP\<close>), joined by the byte streams of
  a TCP connection. In every interleaving the bytes that the \<open>data\<close> handlers of the script have been
  given are a prefix of the bytes that the writes of the script put on the wire.
\<close>

section \<open>Frames\<close>

lemma connecting_rest:
  "connectPrepare sb a h s = (e, s1) \<Longrightarrow> spawned s1 = spawned s \<and> totalRead s1 = totalRead s \<and> grows s s1"
  "addDurationMetricsFor v m ts (resolve v co) s = (e, s1) \<Longrightarrow> spawned s1 = spawned s \<and> totalRead s1 = totalRead s \<and> grows s s1"
  "dialed v co ts s = (e, s1) \<Longrightarrow> spawned s1 = spawned s \<and> totalRead s1 = totalRead s \<and> grows s s1"
proof -
  have u: "untouched s s1 \<Longrightarrow> spawned s1 = spawned s \<and> totalRead s1 = totalRead s \<and> grows s s1"
    by (simp add: untouched_def grows_def)
  show "connectPrepare sb a h s = (e, s1) \<Longrightarrow> spawned s1 = spawned s \<and> totalRead s1 = totalRead s \<and> grows s s1"
    by (drule connectPrepareD) auto
  show "addDurationMetricsFor v m ts (resolve v co) s = (e, s1) \<Longrightarrow> spawned s1 = spawned s \<and> totalRead s1 = totalRead s \<and> grows s s1"
    using addDurationMetricsFor_untouched [where fn = "resolve v co" and s = s, OF resolve_untouched] u by (metis snd_conv)
  show "dialed v co ts s = (e, s1) \<Longrightarrow> spawned s1 = spawned s \<and> totalRead s1 = totalRead s \<and> grows s s1"
    using dialed_untouched [of s v co ts] u by (metis snd_conv)
qed

lemma spawn_frames [simp]:
  "spawned (ticked s) = spawned s" "spawned (netcall op s) = spawned s" "spawned (go g s) = spawned s @ [g]"
  "spawned (push v m ts x s) = spawned s"
  "spawned (settle p out s) = spawned s" "spawned (sendCallback cb s) = spawned s" "spawned (addErrorMetrics v ts s) = spawned s"
  "spawned (addCounterMetrics v m ts s) = spawned s" "spawned (addDurationMetrics v d m ts s) = spawned s"
  "spawned (writeMetrics v bs n e opts s) = spawned s" "spawned (readBefore v c d s) = spawned s" "spawned (destroyClose v r s) = spawned s"
  "spawned (wrote c bs n d' err s) = spawned s" "spawned (on ev h s) = spawned s"
  "spawned (snd (setTimeout v ms s)) = spawned s" "spawned (snd (destroyLocked v s)) = spawned s"
  "spawned (gotBytes v c bs s) = spawned s" "spawned (bufferFilled v bs s) = spawned s"
  by (auto simp: ticked_def netcall_def go_def push_def settle_def sendCallback_def addErrorMetrics_def addCounterMetrics_def
      addDurationMetrics_def writeMetrics_def readBefore_def destroyClose_def wrote_def on_def setTimeout_def destroyLocked_def
      gotBytes_def bufferFilled_def Let_def split: option.split prod.split)

lemma spawned_dataRead [simp]: "spawned (sk (dataRead v i c bs err w)) = spawned (sk w)"
  by (simp add: dataRead_def Let_def split: option.split)

lemma segments_grow: "grows s (snd (destroyLocked v s))" "grows s (wrote c bs n d' err s)" "grows s (s\<lparr>cancelled := True, destroyOnce := True\<rparr>)"
  by (simp add: destroyLocked_def Let_def ticked.grows_op, simp add: wrote_def netcall.grows_op, simp add: grows_def)

lemma dataRead_grows: "grows (sk w) (sk (dataRead v i c bs err w))"
proof -
  have "grows (sk w) (bufferFilled v bs (gotBytes v c bs (sk w)))" by (rule grows_trans [OF gotBytes_grows bufferFilled_grows])
  then show ?thesis by (simp add: dataRead_def Let_def grows_trans [OF _ bufferPut.grows_op] split: option.split)
qed

lemma step_grows: "step G v sb w w' \<Longrightarrow> grows (sk w) (sk w')"
proof (induction rule: step.induct)
  case (read_data w i c bs err)
  show ?case by (rule dataRead_grows)
next
  case (write_fail w i p c bs n opts d e e')
  show ?case using grows_trans [OF grows_trans [OF segments_grow(2) writeMetrics.grows_op] settle.grows_op] by simp
next
  case (write_zero w i p c bs n opts e')
  show ?case using grows_trans [OF grows_trans [OF segments_grow(2) writeMetrics.grows_op] settle.grows_op] by simp
next
  case (write_done w i p c bs n opts)
  show ?case using grows_trans [OF writeMetrics.grows_op settle.grows_op] by simp
next
  case (conn_done w i p ts)
  show ?case using grows_trans [OF addCounterMetrics.grows_op settle.grows_op] by simp
next
  case (send_abort w i cb k)
  show ?case using grows_trans [OF ticked.grows_op bufferPut.grows_op] by simp
next
  case (js_connect w a h s1 j p)
  then have "grows (sk w) s1" by (simp add: connecting_rest)
  then show ?case using grows_trans [OF _ go.grows_op] by simp
qed (simp_all add: segments_grow connecting_rest on.op_grows setTimeout_grows bufferPut.grows_op sendCallback.grows_op
  go.grows_op addErrorMetrics.grows_op settle.grows_op readBefore.grows_op netcall.grows_op destroyClose.grows_op)

section \<open>One reader\<close>

text \<open>
  The calls of \<open>connect\<close> that started a goroutine. Each of them leads to at most one reader: it is
  either still under way to its \<open>go s.read()\<close>, or its reader runs, or both are over.
\<close>

fun isConnect :: "goroutine \<Rightarrow> bool" where
  "isConnect (GoConnect p) = True"
| "isConnect _ = False"

definition connects :: "('h, 'ts) rt \<Rightarrow> nat" where
  "connects s = length (filter isConnect (spawned s))"

fun engaged :: "('h, 'ts) pc \<Rightarrow> nat" where
  "engaged (ConnStart p) = 1"
| "engaged (ConnResolve p ts) = 1"
| "engaged (ConnDial p ts) = 1"
| "engaged (ConnFire p ts) = 1"
| "engaged (ConnSpawn p ts) = 1"
| "engaged ReadHead = 1"
| "engaged ReadSnap = 1"
| "engaged (ReadWait c) = 1"
| "engaged (ReadCheck err) = 1"
| "engaged (Sending cb k) = engaged k"
| "engaged _ = 0"

definition reader_inv :: "('h, 'ts) world \<Rightarrow> bool" where
  "reader_inv w \<longleftrightarrow> finite (busy w) \<and> weight Unused engaged (pcs w) \<le> connects (sk w)"

lemma engaged_final: "final k \<Longrightarrow> engaged k = 0" "base k \<Longrightarrow> engaged k = 0"
  by (cases k; simp)+

lemma engaged_continuations:
  assumes "pcs_inv w"
  shows "pcs w i = Failing p e m ts k \<Longrightarrow> engaged k = 0" "pcs w i = Rejecting p e m k \<Longrightarrow> engaged k = 0"
    "pcs w i = DestroyEnter k \<Longrightarrow> engaged k = 0" "pcs w i = DestroyCancel k \<Longrightarrow> engaged k = 0"
  by (rule engaged_final, erule continuations [OF assms])+

lemma engaged_firing [simp]: "engaged (firing ev a s k) = engaged k"
  by (rule firing_cases [of ev a s k]) simp_all

lemma engaged_afterRead: "engaged (afterRead v err s) \<le> 1"
  by (simp add: afterRead_def split: option.split)

lemma reader_goto:
  assumes "reader_inv w" "pcs u = pcs w" "engaged k + connects (sk w) \<le> engaged (pcs w i) + connects (sk u)"
  shows "reader_inv (goto i k u)"
proof -
  have fin: "finite {i. pcs w i \<noteq> Unused}" using assms(1) by (simp add: reader_inv_def busy_def)
  have "weight Unused engaged ((pcs w)(i := k)) + engaged (pcs w i) = weight Unused engaged (pcs w) + engaged k"
    by (rule weight_upd [OF fin]) simp
  then show ?thesis
    using assms finite_upd [OF fin, of i k] by (simp add: reader_inv_def busy_def)
qed

lemma reader_keep: "reader_inv w \<Longrightarrow> pcs u = pcs w \<Longrightarrow> connects (sk u) = connects (sk w) \<Longrightarrow> reader_inv u"
  by (simp add: reader_inv_def busy_def)

lemma reader_unique:
  assumes "reader_inv w" "connects (sk w) \<le> 1" "engaged (pcs w i) \<noteq> 0" "engaged (pcs w j) \<noteq> 0"
  shows "i = j"
proof (rule ccontr)
  assume "i \<noteq> j"
  have fin: "finite {i. pcs w i \<noteq> Unused}" using assms(1) by (simp add: reader_inv_def busy_def)
  let ?f = "(pcs w)(i := Unused)"
  have "weight Unused engaged ?f + engaged (pcs w i) = weight Unused engaged (pcs w)"
    using weight_upd [where g = engaged, OF fin, of i Unused] by simp
  then have "weight Unused engaged ?f = 0" using assms by (simp add: reader_inv_def)
  then have "engaged (?f j) = 0" using weight_zero [OF finite_upd [OF fin], of engaged i Unused] by simp
  then show False using assms(4) \<open>i \<noteq> j\<close> by simp
qed

lemma connects_go [simp]:
  "connects (go (GoConnect p) s) = Suc (connects s)" "connects (go GoRead s) = connects s" "connects (go (GoWrite p bs o') s) = connects s"
  by (simp_all add: connects_def)

lemma connects_cong: "spawned s = spawned t \<Longrightarrow> connects s = connects t"
  by (simp add: connects_def)

text \<open>Callbacks with bytes are \<open>data\<close> callbacks, and hold the buffer of their bytes.\<close>

definition cb_ok :: "'h callback \<Rightarrow> bool" where
  "cb_ok cb \<longleftrightarrow> (\<forall>b. ArgBytes b \<in> set (cbArgs cb) \<longrightarrow> cbEvent cb = ''data'' \<and> cbCleanup cb = Some b)"

lemma reader_inv_step: "step G v sb w w' \<Longrightarrow> pcs_inv w \<Longrightarrow> reader_inv w \<Longrightarrow> reader_inv w'"
proof (induction rule: step.induct)
  case (conn_spawn w i p ts j)
  have ne: "i \<noteq> j" using conn_spawn.hyps by auto
  have fin: "finite {i. pcs w i \<noteq> Unused}" using conn_spawn.prems(2) by (simp add: reader_inv_def busy_def)
  let ?f = "(pcs w)(i := ConnDone p ts)"
  have "weight Unused engaged ?f + engaged (pcs w i) = weight Unused engaged (pcs w)"
    using weight_upd [where g = engaged, OF fin, of i "ConnDone p ts"] by simp
  moreover have "weight Unused engaged (?f(j := ReadHead)) + engaged (?f j) = weight Unused engaged ?f + 1"
    using weight_upd [where f = ?f and g = engaged and c = Unused and k = ReadHead and j = j] finite_upd [OF fin] by simp
  ultimately show ?case using conn_spawn ne by (simp add: reader_inv_def)
next
  case (read_data w i c bs err)
  obtain k where k: "pcs (dataRead v i c bs err w) = (pcs w)(i := k)" "engaged k = 1"
    using dataRead_pcs [of v i c bs err w] by fastforce
  have "reader_inv (goto i k (w\<lparr>sk := sk (dataRead v i c bs err w)\<rparr>))"
    using read_data k(2) by (intro reader_goto [of w]) (simp_all add: connects_def)
  then show ?case using k(1) by (simp add: reader_inv_def busy_def)
next
  case (read_check w i err)
  then show ?case using engaged_afterRead [of v err "sk w"] by (intro reader_goto [of w]) simp_all
qed ((rule reader_goto, assumption); (frule (1) engaged_continuations)?; simp add: connects_def connecting_rest; fail | (rule reader_keep, assumption); simp add: connects_def connecting_rest; fail)+

fun sends_ok :: "('h, 'ts) pc \<Rightarrow> bool" where
  "sends_ok (Sending cb k) = cb_ok cb"
| "sends_ok _ = True"

definition cbs_ok :: "('h, 'ts) world \<Rightarrow> bool" where
  "cbs_ok w \<longleftrightarrow> list_all cb_ok (sent (sk w)) \<and> (\<forall>i. sends_ok (pcs w i))"

lemma sends_final: "final k \<Longrightarrow> sends_ok k" "base k \<Longrightarrow> sends_ok k" "returns_to ev k \<Longrightarrow> sends_ok k"
  by (cases k; simp)+

lemma sends_continuations:
  assumes "pcs_inv w"
  shows "pcs w i = Sending cb k \<Longrightarrow> sends_ok k" "pcs w i = Failing p e m ts k \<Longrightarrow> sends_ok k"
    "pcs w i = Rejecting p e m k \<Longrightarrow> sends_ok k" "pcs w i = DestroyEnter k \<Longrightarrow> sends_ok k"
    "pcs w i = DestroyCancel k \<Longrightarrow> sends_ok k"
  by (rule sends_final, erule continuations [OF assms])+

lemma sends_firing: "sends_ok k \<Longrightarrow> (\<And>b. ArgBytes b \<notin> set a) \<Longrightarrow> sends_ok (firing ev a s k)"
  by (rule firing_cases [of ev a s k]) (simp_all add: cb_ok_def)

lemma sends_afterRead: "sends_ok (afterRead v err s)"
  by (auto simp: afterRead_def intro: sends_firing split: option.split)

lemma cbs_keep:
  "cbs_ok w \<Longrightarrow> sent (sk w') = sent (sk w) \<Longrightarrow> (\<And>i. sends_ok (pcs w i) \<Longrightarrow> sends_ok (pcs w' i)) \<Longrightarrow> cbs_ok w'"
  by (simp add: cbs_ok_def)

lemma cbs_ok_step: "step G v sb w w' \<Longrightarrow> pcs_inv w \<Longrightarrow> cbs_ok w \<Longrightarrow> cbs_ok w'"
proof (induction rule: step.induct)
  case (send w i cb k)
  moreover have "cb_ok cb" using send.prems(2) send.hyps(1) by (metis cbs_ok_def sends_ok.simps(1))
  ultimately show ?case using sends_continuations(1) [OF send.prems(1) send.hyps(1)] by (simp add: cbs_ok_def)
next
  case (read_data w i c bs err)
  then show ?case
    by - (erule cbs_keep, simp, auto simp: dataRead_def Let_def cb_ok_def dest!: prepareCallback_event split: option.splits)
qed (erule cbs_keep; (frule (1) sends_continuations)?; simp add: step_frames sends_firing sends_afterRead; fail)+

section \<open>The session\<close>

text \<open>
  The bytes a connection carried away from the socket: what the calls of \<open>Write\<close> on it took over, also
  of one that failed half way.
\<close>

fun wireBytes :: "conn \<Rightarrow> netop \<Rightarrow> byte list" where
  "wireBytes c (OpWrite c' bs n err) = (if c' = c then take n bs else [])"
| "wireBytes c _ = []"

definition uploaded :: "conn \<Rightarrow> netop list \<Rightarrow> byte list" where
  "uploaded c ops = concat (map (wireBytes c) ops)"

text \<open>The bytes a handler finds in its arguments.\<close>

fun jsBytes :: "jsarg \<Rightarrow> byte list" where
  "jsBytes (JSBytes bs) = bs"
| "jsBytes (JSError e) = []"

definition content :: "(nat \<Rightarrow> byte list) \<Rightarrow> 'h callback \<Rightarrow> byte list" where
  "content hp cb = concat (map (\<lambda>a. jsBytes (toValue hp a)) (cbArgs cb))"

text \<open>
  The socket, the rounds of \<open>io.Copy\<close> at the other end so far, the bytes that the socket has read and
  those that its handlers have been given.
\<close>

record ('h, 'ts) session =
  client :: "('h, 'ts) world"
  served :: "copyRound list"
  incoming :: "byte list"
  seen :: "byte list"

text \<open>
  TCP delivers a prefix of what was sent, in order, and in pieces of its own choosing. The server
  reads from what the socket wrote and writes what its copy echoes, as long as the copy goes on; a
  read of the socket gets the next bytes that were echoed. All other steps of the socket are free:
  those that run no callback and read no bytes.
\<close>

inductive talk :: "golib \<Rightarrow> 'ts vu \<Rightarrow> 'v sobek \<Rightarrow> conn \<Rightarrow> ('h, 'ts) session \<Rightarrow> ('h, 'ts) session \<Rightarrow> bool"
  for G v sb c where
  talk_step: "step G v sb (client x) w' \<Longrightarrow> bytesRead (sk w') = bytesRead (sk (client x)) \<Longrightarrow> ran w' = ran (client x) \<Longrightarrow>
    talk G v sb c x (x\<lparr>client := w'\<rparr>)"
| talk_read: "pcs (client x) i = ReadWait c \<Longrightarrow> bs \<noteq> [] \<Longrightarrow> length bs \<le> 4096 \<Longrightarrow>
    prefix (incoming x @ bs) (fst (io_Copy (served x))) \<Longrightarrow>
    talk G v sb c x (x\<lparr>client := dataRead v i c bs err (client x), incoming := incoming x @ bs\<rparr>)"
| talk_handler: "pcs (client x) 0 = JSReady \<Longrightarrow> running (client x) = None \<Longrightarrow>
    ran (client x) < length (sent (sk (client x))) \<Longrightarrow> cb = sent (sk (client x)) ! ran (client x) \<Longrightarrow>
    fst (runCallback cb (sk (client x))) = (h, args) \<Longrightarrow>
    talk G v sb c x (x\<lparr>client := (client x)\<lparr>running := Some cb, ran := Suc (ran (client x))\<rparr>,
      seen := seen x @ concat (map jsBytes args)\<rparr>)"
| talk_echo: "snd (io_Copy (served x)) = None \<Longrightarrow>
    prefix (received (served x @ [r])) (uploaded c (net (sk (client x)))) \<Longrightarrow>
    talk G v sb c x (x\<lparr>served := served x @ [r]\<rparr>)"

text \<open>A script that has registered a \<open>data\<close> handler before anything else.\<close>

definition talkStart :: "tcpMetrics \<Rightarrow> 'h \<Rightarrow> ('h, 'ts) session" where
  "talkStart m h = \<lparr>client = onSock (on ''data'' h) (start m), served = [], incoming = [], seen = []\<rparr>"

section \<open>Bytes on their way\<close>

definition queued :: "('h, 'ts) world \<Rightarrow> byte list" where
  "queued w = concat (map (content (heap (sk w))) (drop (ran w) (sent (sk w))))"

fun offered :: "(nat \<Rightarrow> byte list) \<Rightarrow> ('h, 'ts) pc \<Rightarrow> byte list" where
  "offered hp (Sending cb k) = content hp cb"
| "offered hp _ = []"

text \<open>
  What the socket has read was given to the handlers, is queued, or is being offered to the loop
  goroutine by the reader.
\<close>

definition flow :: "byte list \<Rightarrow> byte list \<Rightarrow> ('h, 'ts) world \<Rightarrow> bool" where
  "flow got given w \<longleftrightarrow>
     ((\<forall>i. offered (heap (sk w)) (pcs w i) = []) \<longrightarrow> got = given @ queued w) \<and>
     (\<forall>i. offered (heap (sk w)) (pcs w i) \<noteq> [] \<longrightarrow> got = given @ queued w @ offered (heap (sk w)) (pcs w i))"

definition calm :: "('h, 'ts) world \<Rightarrow> bool" where
  "calm w \<longleftrightarrow> \<not> vuDone w \<and> connects (sk w) \<le> 1"

lemma content_nil: "(\<And>b. ArgBytes b \<notin> set (cbArgs cb)) \<Longrightarrow> content hp cb = []"
proof -
  assume a: "\<And>b. ArgBytes b \<notin> set (cbArgs cb)"
  have "jsBytes (toValue hp x) = []" if "x \<in> set (cbArgs cb)" for x
    using a that by (cases x) auto
  then show ?thesis by (simp add: content_def)
qed

lemma content_cong: "(\<And>b. ArgBytes b \<in> set (cbArgs cb) \<Longrightarrow> hp b = hp' b) \<Longrightarrow> content hp cb = content hp' cb"
proof -
  assume a: "\<And>b. ArgBytes b \<in> set (cbArgs cb) \<Longrightarrow> hp b = hp' b"
  have "jsBytes (toValue hp x) = jsBytes (toValue hp' x)" if "x \<in> set (cbArgs cb)" for x
    using a that by (cases x) auto
  then show ?thesis by (simp add: content_def cong: map_cong)
qed

lemma offered_final:
  "final k \<Longrightarrow> \<forall>hp. offered hp k = []" "base k \<Longrightarrow> \<forall>hp. offered hp k = []" "returns_to ev k \<Longrightarrow> \<forall>hp. offered hp k = []"
  by (cases k; simp)+

lemma offered_continuations:
  assumes "pcs_inv w"
  shows "pcs w i = Sending cb k \<Longrightarrow> \<forall>hp. offered hp k = []" "pcs w i = Failing p e m ts k \<Longrightarrow> \<forall>hp. offered hp k = []"
    "pcs w i = Rejecting p e m k \<Longrightarrow> \<forall>hp. offered hp k = []" "pcs w i = DestroyEnter k \<Longrightarrow> \<forall>hp. offered hp k = []"
    "pcs w i = DestroyCancel k \<Longrightarrow> \<forall>hp. offered hp k = []"
  by (rule offered_final, erule continuations [OF assms])+

lemma offered_firing: "offered hp k = [] \<Longrightarrow> (\<And>b. ArgBytes b \<notin> set a) \<Longrightarrow> offered hp (firing ev a s k) = []"
  by (rule firing_cases [of ev a s k]) (simp_all add: content_nil)

lemma offered_afterRead: "offered hp (afterRead v err s) = []"
  by (auto simp: afterRead_def intro: offered_firing split: option.split)

text \<open>Only the reader offers bytes, so that there is one such offer at most.\<close>

lemma offered_engaged:
  assumes "pcs_inv w" "cbs_ok w" "offered hp (pcs w i) \<noteq> []"
  shows "engaged (pcs w i) \<noteq> 0"
proof (cases "pcs w i")
  case (Sending cb k)
  then obtain b where "ArgBytes b \<in> set (cbArgs cb)" using assms(3) content_nil by fastforce
  moreover have "cb_ok cb" using assms(2) Sending by (metis cbs_ok_def sends_ok.simps(1))
  ultimately have "returns_to ''data'' k" using continuations(1) [OF assms(1) Sending] by (auto simp: cb_ok_def)
  then show ?thesis using Sending by (cases k) simp_all
qed (use assms(3) in simp_all)

lemma sole_offer:
  assumes "pcs_inv w" "cbs_ok w" "reader_inv w" "connects (sk w) \<le> 1" "engaged (pcs w i) \<noteq> 0" "j \<noteq> i"
  shows "offered hp (pcs w j) = []"
  using reader_unique [OF assms(3-5), of j] offered_engaged [OF assms(1,2), of hp j] assms(6) by blast

lemma totalRead_dataRead: "totalRead (sk (dataRead v i c bs err w)) = totalRead (sk w) + of_nat (length bs)"
  by (simp add: dataRead_def Let_def split: option.split)

lemma bytesRead_grows:
  assumes "bs \<noteq> []" "length bs \<le> 4096"
  shows "bytesRead (sk (dataRead v i c bs err w)) \<noteq> bytesRead (sk w)"
proof
  assume "bytesRead (sk (dataRead v i c bs err w)) = bytesRead (sk w)"
  then have "(of_nat (length bs) :: int64) = 0" by (simp add: bytesRead_def totalRead_dataRead)
  then have "unat (of_nat (length bs) :: int64) = 0" by simp
  then show False using assms by (simp add: unat_of_nat take_bit_nat_eq_self)
qed

lemma flow_keep:
  assumes "flow got given w" "heap (sk w') = heap (sk w)" "ran w' = ran w" "sent (sk w') = sent (sk w)"
    "\<And>i. offered (heap (sk w)) (pcs w' i) = offered (heap (sk w)) (pcs w i)"
  shows "flow got given w'"
  using assms by (simp add: flow_def queued_def)

lemma flow_step:
  assumes "step G v sb w w'" "pcs_inv w" "cbs_ok w" "reader_inv w" "flow got given w" "ran w \<le> length (sent (sk w))"
    "bytesRead (sk w') = bytesRead (sk w)" "ran w' = ran w" "calm w'"
  shows "flow got given w'"
  using assms
proof (induction rule: step.induct)
  case (send w i cb k)
  let ?hp = "heap (sk w)"
  have k: "offered ?hp k = []" using offered_continuations(1) [OF send.prems(1) send.hyps(1)] by blast
  have le: "ran w \<le> length (sent (sk w))" by (rule send.prems)
  show ?case
  proof (cases "content ?hp cb = []")
    case True
    then have "offered ?hp (((pcs w)(i := k)) j) = offered ?hp (pcs w j)" for j using k send.hyps(1) by simp
    then show ?thesis using send.prems(4) True le by (simp add: flow_def queued_def del: fun_upd_apply)
  next
    case False
    have "connects (sk w) \<le> 1" using send.prems(8) by (simp add: calm_def connects_def)
    moreover have "engaged (pcs w i) \<noteq> 0"
      using offered_engaged [OF send.prems(1,2), of ?hp i] False send.hyps(1) by simp
    ultimately have "offered ?hp (pcs w j) = []" if "j \<noteq> i" for j
      using sole_offer [OF send.prems(1-3), of i j ?hp] that by simp
    then have "\<forall>j. offered ?hp (((pcs w)(i := k)) j) = []" using k by simp
    moreover have "got = given @ queued w @ content ?hp cb" using send.prems(4) send.hyps(1) False unfolding flow_def by (metis offered.simps(1))
    ultimately show ?thesis using le by (simp add: flow_def queued_def)
  qed
next
  case (send_abort w i cb k)
  then show ?case by (simp add: calm_def)
next
  case (js_callback w)
  then show ?case by simp
next
  case (read_data w i c bs err)
  then show ?case using bytesRead_grows [of bs v i c err w] by simp
qed (erule flow_keep; (frule (1) offered_continuations)?; simp add: step_frames connecting_pool offered_firing offered_afterRead; fail)+

lemma content_stable:
  assumes "buffer_inv w" "cb_ok cb" "bufferAt w p = cbCleanup cb" "\<And>b. b \<in> set (inUse (sk w)) \<Longrightarrow> hp b = heap (sk w) b"
  shows "content hp cb = content (heap (sk w)) cb"
proof (rule content_cong)
  fix b assume "ArgBytes b \<in> set (cbArgs cb)"
  then have "bufferAt w p = Some b" using assms(2,3) by (simp add: cb_ok_def)
  then have "b \<in> set (inUse (sk w))" using assms(1) by (auto simp: buffer_inv_def intro: ranI)
  then show "hp b = heap (sk w) b" by (rule assms(4))
qed

lemma flow_read:
  assumes "pool_law v" "pcs_inv w" "cbs_ok w" "reader_inv w" "buffer_inv w" "handlers (sk w) ''data'' = Some (Callable h)"
    "flow got given w" "connects (sk w) \<le> 1" "pcs w i = ReadWait c" "bs \<noteq> []"
  shows "flow (got @ bs) given (dataRead v i c bs err w)"
proof -
  let ?s2 = "gotBytes v c bs (sk w)"
  let ?b = "PoolGet v (tick ?s2) (inUse ?s2)"
  let ?cb = "\<lparr>cbEvent = ''data'', cbHandler = h, cbArgs = [ArgBytes ?b], cbCleanup = Some ?b\<rparr>"
  let ?w' = "dataRead v i c bs err w"
  have d: "?w' = goto i (Sending ?cb (ReadCheck err)) (w\<lparr>sk := bufferFilled v bs ?s2\<rparr>)"
    using assms(6) by (simp add: dataRead_def Let_def prepareCallback_handled)
  have hp: "heap (sk ?w') = (heap (sk w))(?b := bs)" by (simp add: d)
  have same: "b \<in> set (inUse (sk w)) \<Longrightarrow> heap (sk ?w') b = heap (sk w) b" for b by (rule heap_read [OF assms(1)])
  have q: "queued ?w' = queued w"
  proof -
    have "content (heap (sk ?w')) (sent (sk w) ! n) = content (heap (sk w)) (sent (sk w) ! n)"
      if "ran w \<le> n" "n < length (sent (sk w))" for n
      using that assms(3) by (intro content_stable [OF assms(5) _ _ same, of _ "Queued n"]) (simp_all add: cbs_ok_def list_all_length)
    then have "map (content (heap (sk ?w'))) (drop (ran w) (sent (sk w))) = map (content (heap (sk w))) (drop (ran w) (sent (sk w)))"
      by (intro nth_equalityI) simp_all
    then have "concat (map (content (heap (sk ?w'))) (drop (ran w) (sent (sk w)))) =
        concat (map (content (heap (sk w))) (drop (ran w) (sent (sk w))))" by (rule arg_cong)
    then show ?thesis unfolding queued_def dataRead_simps .
  qed
  have i: "engaged (pcs w i) \<noteq> 0" using assms(9) by simp
  have others: "offered hp' (pcs w j) = []" if "j \<noteq> i" for j hp' by (rule sole_offer [OF assms(2-4,8) i that])
  have "offered (heap (sk w)) (pcs w j) = []" for j using others assms(9) by (cases "j = i") simp_all
  then have got: "got = given @ queued w" using assms(7) by (simp add: flow_def)
  have off: "offered (heap (sk ?w')) (pcs ?w' j) = (if j = i then bs else [])" for j
    using others [of j] by (simp add: d content_def)
  show ?thesis unfolding flow_def q off using got assms(10) by auto
qed

lemma flow_handler:
  assumes "flow got given w" "ran w < length (sent (sk w))" "cb = sent (sk w) ! ran w" "fst (runCallback cb (sk w)) = (h, args)"
  shows "flow got (given @ concat (map jsBytes args)) (w\<lparr>running := Some cb, ran := Suc (ran w)\<rparr>)"
proof -
  have "concat (map jsBytes args) = content (heap (sk w)) cb"
    using assms(4) by (auto simp: runCallback_def content_def comp_def)
  moreover have "queued w = content (heap (sk w)) cb @ queued (w\<lparr>running := Some cb, ran := Suc (ran w)\<rparr>)"
    using assms(2,3) by (simp add: queued_def Cons_nth_drop_Suc [symmetric])
  ultimately show ?thesis using assms(1) by (simp add: flow_def)
qed

section \<open>Streams\<close>

lemma echo_grows: "snd (io_Copy rs) = None \<Longrightarrow> prefix (fst (io_Copy rs)) (fst (io_Copy (rs @ [r])))"
  by (induction rs) (auto simp: Let_def split: option.splits prod.splits if_splits)

lemma uploaded_grows: "prefix ops ops' \<Longrightarrow> prefix (uploaded c ops) (uploaded c ops')"
  by (auto simp: prefix_def uploaded_def)

section \<open>Invariant\<close>

lemma data_handler_stays:
  "step G v sb w w' \<Longrightarrow> handlers (sk w) e = Some (Callable h) \<Longrightarrow> \<exists>h'. handlers (sk w') e = Some (Callable h')"
  by (induction rule: step.induct) (simp_all add: step_frames, auto simp: on_def)

definition session_inv :: "conn \<Rightarrow> ('h, 'ts) session \<Rightarrow> bool" where
  "session_inv c x \<longleftrightarrow> mach_inv (client x) \<and> buffer_inv (client x) \<and> reader_inv (client x) \<and> cbs_ok (client x) \<and>
     (\<exists>h. handlers (sk (client x)) ''data'' = Some (Callable h)) \<and>
     prefix (incoming x) (fst (io_Copy (served x))) \<and> prefix (received (served x)) (uploaded c (net (sk (client x)))) \<and>
     (calm (client x) \<longrightarrow> flow (incoming x) (seen x) (client x))"

lemma calm_before: "step G v sb w w' \<Longrightarrow> calm w' \<Longrightarrow> calm w"
proof -
  assume s: "step G v sb w w'" and c: "calm w'"
  have "prefix (spawned (sk w)) (spawned (sk w'))" using step_grows [OF s] by (simp add: grows_def)
  then have "connects (sk w) \<le> connects (sk w')" by (auto simp: connects_def prefix_def)
  moreover have "vuDone w \<Longrightarrow> vuDone w'" using s by (induction rule: step.induct) simp_all
  ultimately show "calm w" using c by (auto simp: calm_def)
qed

lemma session_client:
  assumes "session_inv c x" "pool_law v" "step G v sb (client x) w'" "prefix got (fst (io_Copy (served x)))"
    "calm (client x) \<Longrightarrow> flow (incoming x) (seen x) (client x) \<Longrightarrow> calm w' \<Longrightarrow> flow got given w'"
  shows "session_inv c (x\<lparr>client := w', incoming := got, seen := given\<rparr>)"
proof -
  let ?w = "client x"
  have I: "mach_inv ?w" "buffer_inv ?w" "reader_inv ?w" "cbs_ok ?w" "\<exists>h. handlers (sk ?w) ''data'' = Some (Callable h)"
    "prefix (received (served x)) (uploaded c (net (sk ?w)))" "calm ?w \<longrightarrow> flow (incoming x) (seen x) ?w"
    using assms(1) by (simp_all add: session_inv_def)
  note pc = mach_invD(1) [OF I(1)]
  have "prefix (net (sk ?w)) (net (sk w'))" using step_grows [OF assms(3)] by (simp add: grows_def)
  then have "prefix (received (served x)) (uploaded c (net (sk w')))"
    using I(6) uploaded_grows prefix_order.trans by blast
  moreover have "calm w' \<longrightarrow> flow got given w'" using calm_before [OF assms(3)] I(7) assms(5) by blast
  moreover have "\<exists>h. handlers (sk w') ''data'' = Some (Callable h)" using I(5) data_handler_stays [OF assms(3)] by blast
  ultimately show ?thesis
    using mach_inv_step [OF I(1) assms(3)] buffer_inv_step [OF assms(3,2) pc I(2)] reader_inv_step [OF assms(3) pc I(3)]
      cbs_ok_step [OF assms(3) pc I(4)] assms(4) by (simp add: session_inv_def)
qed

lemma session_inv_step: "talk G v sb c x y \<Longrightarrow> pool_law v \<Longrightarrow> session_inv c x \<Longrightarrow> session_inv c y"
proof (induction rule: talk.induct)
  case (talk_step x w')
  have I: "mach_inv (client x)" "buffer_inv (client x)" "reader_inv (client x)" "cbs_ok (client x)"
    "prefix (incoming x) (fst (io_Copy (served x)))" using talk_step.prems(2) by (simp_all add: session_inv_def)
  have "session_inv c (x\<lparr>client := w', incoming := incoming x, seen := seen x\<rparr>)"
    using flow_step [OF talk_step.hyps(1) mach_invD(1) [OF I(1)] I(4,3) _ _ talk_step.hyps(2,3)] I(2,5)
    by (intro session_client [OF talk_step.prems(2,1) talk_step.hyps(1)]) (simp_all add: buffer_inv_def)
  then show ?case by simp
next
  case (talk_read x i bs err)
  let ?w = "client x"
  have I: "mach_inv ?w" "buffer_inv ?w" "reader_inv ?w" "cbs_ok ?w"
    using talk_read.prems(2) by (simp_all add: session_inv_def)
  obtain h where h: "handlers (sk ?w) ''data'' = Some (Callable h)" using talk_read.prems(2) by (auto simp: session_inv_def)
  have "session_inv c (x\<lparr>client := dataRead v i c bs err ?w, incoming := incoming x @ bs, seen := seen x\<rparr>)"
    using talk_read flow_read [OF talk_read.prems(1) mach_invD(1) [OF I(1)] I(4,3,2) h]
    by (intro session_client [OF talk_read.prems(2,1) read_data]) (simp_all add: calm_def)
  then show ?case by simp
next
  case (talk_handler x cb h args)
  have "session_inv c (x\<lparr>client := (client x)\<lparr>running := Some cb, ran := Suc (ran (client x))\<rparr>, incoming := incoming x,
      seen := seen x @ concat (map jsBytes args)\<rparr>)"
    using talk_handler flow_handler [OF _ talk_handler.hyps(3-5)] js_callback [OF talk_handler.hyps(1-3)]
    by (intro session_client [OF talk_handler.prems(2,1)]) (simp_all add: session_inv_def)
  then show ?case by simp
next
  case (talk_echo x r)
  then have "prefix (fst (io_Copy (served x))) (fst (io_Copy (served x @ [r])))" by (intro echo_grows)
  then show ?case using talk_echo prefix_order.trans by (auto simp: session_inv_def)
qed

lemma session_inv_start: "session_inv c (talkStart m h :: ('h, 'ts) session)"
proof -
  let ?w0 = "start m :: ('h, 'ts) world"
  let ?w = "onSock (on ''data'' h) ?w0"
  have "weight Unused engaged (pcs ?w0) = 0" by (auto simp: weight_def start_def)
  then have "reader_inv ?w" by (simp add: reader_inv_def busy_def start_def)
  moreover have "cbs_ok ?w" by (simp add: cbs_ok_def start_def newSocket_def)
  moreover have "mach_inv ?w"
    by (rule mach_inv_step [OF mach_inv_start, of undefined undefined undefined]) (rule js_on, simp add: start_def)
  moreover have "buffer_inv ?w" by (rule buffer_keep [OF buffer_inv_start]) simp_all
  moreover have "flow [] [] ?w" by (simp add: flow_def queued_def start_def newSocket_def)
  moreover have "handlers (sk ?w) ''data'' = Some (Callable h)" by (simp add: on_def events_def)
  ultimately show ?thesis by (simp add: session_inv_def talkStart_def received_def)
qed

interpretation session: transition_system "\<lambda>x. x = talkStart m h \<and> pool_law v" "talk G v sb c" "\<lambda>x. pool_law v \<and> session_inv c x"
  by unfold_locales (auto simp: session_inv_start intro: session_inv_step)

lemma totalRead_segments:
  "totalRead (on ev h s) = totalRead s" "totalRead (snd (setTimeout v ms s)) = totalRead s"
  "totalRead (snd (destroyLocked v s)) = totalRead s" "totalRead (wrote c bs n d err s) = totalRead s"
  by (auto simp: on_def setTimeout_def destroyLocked_def wrote_def Let_def split: option.split)

text \<open>
  Nothing else is ruled out: every step of the socket's machine reads bytes, starts a callback, or is
  free in a session.
\<close>

lemma talk_covers:
  assumes "step G v sb w w'"
  shows "(bytesRead (sk w') = bytesRead (sk w) \<and> ran w' = ran w) \<or>
    (\<exists>i c bs err. pcs w i = ReadWait c \<and> bs \<noteq> [] \<and> length bs \<le> 4096 \<and> w' = dataRead v i c bs err w) \<or>
    (ran w < length (sent (sk w)) \<and> w' = w\<lparr>running := Some (sent (sk w) ! ran w), ran := Suc (ran w)\<rparr>)"
  using assms
proof (induction rule: step.induct)
  case (read_data w i c bs err)
  then show ?case by blast
next
  case (js_callback w)
  then show ?case by blast
qed (rule disjI1, simp add: bytesRead_def connecting_rest totalRead_segments; fail)+

lemma session_facts:
  assumes "reach (\<lambda>x. x = talkStart m h) (talk G v sb c) x" "pool_law v"
  shows "session_inv c x"
proof -
  have "reach (\<lambda>x. x = talkStart m h \<and> pool_law v) (talk G v sb c) x" using assms by (simp cong: conj_cong)
  from session.reach_inv [OF this] show ?thesis by simp
qed

lemma offered_offers: "cbs_ok w \<Longrightarrow> offers (pcs w i) = None \<Longrightarrow> offered hp (pcs w i) = []"
proof (cases "pcs w i")
  case (Sending cb k)
  assume "cbs_ok w" "offers (pcs w i) = None"
  then have "cb_ok cb" "cbCleanup cb = None" using Sending by (metis cbs_ok_def sends_ok.simps(1), simp)
  then show ?thesis using Sending by (auto simp: cb_ok_def intro: content_nil)
qed simp_all

lemma flow_prefix: "flow got given w \<Longrightarrow> prefix (given @ queued w) got"
proof (cases "\<forall>i. offered (heap (sk w)) (pcs w i) = []")
  case False
  then obtain i where "offered (heap (sk w)) (pcs w i) \<noteq> []" by blast
  moreover assume "flow got given w"
  ultimately have "got = given @ queued w @ offered (heap (sk w)) (pcs w i)" by (simp add: flow_def)
  then show ?thesis by simp
qed (simp add: flow_def)

end
