(* ===== verification/Module.thy ===== *)
theory Module
  imports Lifecycle
begin

text \<open>
  The JavaScript module (\<open>register.go\<close>, \<open>tcp/module.go\<close>) and the constructor of its class
  \<open>Socket\<close> (\<open>tcp/socket_base.go\<close>): what it defines on the new object, when it throws, the
  goroutine it starts, and what any sequence of calls on the object keeps.
\<close>

section \<open>The module\<close>

definition ImportPath :: string where
  "ImportPath = ''k6/x/tcp''"

text \<open>
  An instance of the module for one virtual user. \<open>NewMetric\<close> is the registry of k6; a named
  export is the class it constructs.
\<close>

record module =
  modMetrics :: tcpMetrics

datatype export = SocketClass module

definition NewModuleInstance :: "(string \<Rightarrow> metricType \<Rightarrow> bool \<Rightarrow> metric) \<Rightarrow> module" where
  "NewModuleInstance NewMetric = \<lparr>modMetrics = newTCPMetrics NewMetric\<rparr>"

definition Exports :: "module \<Rightarrow> string \<Rightarrow> export option" where
  "Exports m = [''Socket'' \<mapsto> SocketClass m]"

text \<open>
  The registration of \<open>register.go\<close>: the modules k6 knows, by import path. What k6 does with a
  path that is taken is not the extension's.
\<close>

definition register :: "(string \<Rightarrow> ((string \<Rightarrow> metricType \<Rightarrow> bool \<Rightarrow> metric) \<Rightarrow> module) option) \<Rightarrow>
    (string \<Rightarrow> ((string \<Rightarrow> metricType \<Rightarrow> bool \<Rightarrow> metric) \<Rightarrow> module) option)" where
  "register known = known(ImportPath \<mapsto> NewModuleInstance)"

section \<open>The constructor\<close>

text \<open>A property of the object: a method, or an accessor with a getter and no setter.\<close>

datatype jsprop = Method string | Getter string

definition socketProps :: "(string \<times> jsprop) list" where
  "socketProps = [(''connect'', Method ''connect''), (''write'', Method ''write''), (''destroy'', Method ''destroy''),
     (''setTimeout'', Method ''setTimeout''), (''on'', Method ''on''),
     (''ready_state'', Getter ''readyState''), (''bytes_written'', Getter ''bytesWritten''),
     (''bytes_read'', Getter ''bytesRead''), (''local_ip'', Getter ''localIP''), (''local_port'', Getter ''localPort''),
     (''remote_ip'', Getter ''remoteIP''), (''remote_port'', Getter ''remotePort''), (''connected'', Getter ''isConnected'')]"

text \<open>Properties are defined in order until the engine refuses one.\<close>

fun defineProps :: "(string \<Rightarrow> goerror option) \<Rightarrow> (string \<times> jsprop) list \<Rightarrow> goerror option \<times> (string \<times> jsprop) list" where
  "defineProps setProp [] = (None, [])"
| "defineProps setProp ((n, p) # ps) = (case setProp n of
       Some err \<Rightarrow> (Some err, [])
     | None \<Rightarrow> (let (e, rest) = defineProps setProp ps in (e, (n, p) # rest)))"

text \<open>
  The constructor gives the error it throws, the properties it defined, and the socket. An argument
  for which the engine stores a nil pointer in \<open>socketOpts\<close> (\<open>null\<close>, \<open>undefined\<close>) is left out: the first
  call of \<open>tags\<close> would then dereference it and panic.
  \<open>exportOpts\<close> converts the argument, \<open>setProp\<close> defines a property of the object.
\<close>

definition newSocketObject ::
    "module \<Rightarrow> ('v \<Rightarrow> socketOptions result) \<Rightarrow> (string \<Rightarrow> goerror option) \<Rightarrow> 'v list \<Rightarrow>
     goerror option \<times> (string \<times> jsprop) list \<times> ('h, 'ts) rt" where
  "newSocketObject m exportOpts setProp arguments =
     (let s = newSocket (modMetrics m) in
      case (case arguments of [] \<Rightarrow> Inr \<lparr>soTags = []\<rparr> | a # _ \<Rightarrow> exportOpts a) of
        Inl err \<Rightarrow> (Some err, [], s\<lparr>socketOpts := \<lparr>soTags = []\<rparr>\<rparr>)
      | Inr opts \<Rightarrow>
          (let s1 = s\<lparr>socketOpts := opts\<rparr> in
           case defineProps setProp socketProps of
             (Some err, ps) \<Rightarrow> (Some err, ps, s1)
           | (None, ps) \<Rightarrow> (None, ps, go GoLoop s1)))"

section \<open>Calls on the object\<close>

text \<open>
  What a script and the goroutines its calls started do with the socket, one after the other, up to
  the first of them that blocks.
\<close>

datatype ('v, 'h, 'ts) call =
    CallOn string 'h
  | CallSetTimeout int64
  | CallConnect nat 'v "'v option"
  | CallWrite nat 'v "writeOptions option"
  | CallDestroy
  | RunConnect nat
  | RunWrite nat "byte list" writeOptions

fun perform :: "golib \<Rightarrow> 'ts vu \<Rightarrow> 'v sobek \<Rightarrow> ('v, 'h, 'ts) call \<Rightarrow> ('h, 'ts) rt \<Rightarrow> (unit, ('h, 'ts) rt) run" where
  "perform G v sb (CallOn e h) s = Returns () (on e h s)"
| "perform G v sb (CallSetTimeout ms) s = Returns () (snd (setTimeout v ms s))"
| "perform G v sb (CallConnect p a h) s = connect v sb p a h s"
| "perform G v sb (CallWrite p a wo) s = socketWrite G v sb p a wo s"
| "perform G v sb CallDestroy s = destroy v s"
| "perform G v sb (RunConnect p) s = connectGoroutine v p s"
| "perform G v sb (RunWrite p bs opts) s = Returns () (writeGoroutine v p bs opts s)"

fun performAll ::
    "golib \<Rightarrow> 'ts vu \<Rightarrow> 'v sobek \<Rightarrow> ('v, 'h, 'ts) call list \<Rightarrow> ('h, 'ts) rt \<Rightarrow> (unit, ('h, 'ts) rt) run" where
  "performAll G v sb [] s = Returns () s"
| "performAll G v sb (c # cs) s = andThen (perform G v sb c s) (\<lambda>_ s1. performAll G v sb cs s1)"

lemma perform_op: "socket_op (\<lambda>s. stateOf (perform G v sb c s))"
proof (cases c)
  case (CallOn e h)
  then show ?thesis using on.socket_op_axioms [of e h] by (simp add: socket_op_def)
next
  case (CallSetTimeout ms)
  then show ?thesis using setTimeout.socket_op_axioms [of v ms] by (simp add: socket_op_def)
next
  case (CallConnect p a h)
  then show ?thesis using connect.socket_op_axioms [of v sb p a h] by (simp add: socket_op_def)
next
  case (CallWrite p a wo)
  then show ?thesis using socketWrite.socket_op_axioms [of G v sb p a wo] by (simp add: socket_op_def)
next
  case CallDestroy
  then show ?thesis using destroy.socket_op_axioms [of v] by (simp add: socket_op_def)
next
  case (RunConnect p)
  then show ?thesis using connectGoroutine.socket_op_axioms [of v p] by (simp add: socket_op_def)
next
  case (RunWrite p bs opts)
  then show ?thesis using writeGoroutine.socket_op_axioms [of v p bs opts] by (simp add: socket_op_def)
qed

interpretation perform: socket_op "\<lambda>s. stateOf (perform G v sb c s)"
  by (rule perform_op)

lemma performAll_op: "socket_op (\<lambda>s. stateOf (performAll G v sb cs s))"
proof (induction cs)
  case (Cons c cs)
  then show ?case using socket_op_andThen [OF perform_op [of G v sb c] Cons.IH] by simp
qed (simp add: socket_op_def)

interpretation performAll: socket_op "\<lambda>s. stateOf (performAll G v sb cs s)"
  by (rule performAll_op)

lemma newSocket_inv: "sock_inv (newSocket m)" "sock_inv ((newSocket m)\<lparr>socketOpts := o'\<rparr>)"
  by (simp_all add: newSocket_def sock_inv_def)

lemma defineProps_all: "(\<And>n p. (n, p) \<in> set ps \<Longrightarrow> setProp n = None) \<Longrightarrow> defineProps setProp ps = (None, ps)"
  by (induction ps) force+

lemma defineProps_prefix: "prefix (snd (defineProps setProp ps)) ps"
  by (induction ps) (auto split: option.split prod.split)

lemma newSocketObject_inv: "sock_inv (snd (snd (newSocketObject m ex st args)))"
proof -
  have "sock_inv (go GoLoop ((newSocket (modMetrics m))\<lparr>socketOpts := o'\<rparr>))" for o'
    by (rule go.op_inv) (rule newSocket_inv)
  then show ?thesis
    by (auto simp: newSocketObject_def Let_def newSocket_inv split: sum.split prod.split option.split list.split)
qed

lemma newSocketObject_spec:
  assumes "newSocketObject m ex st args = (err, props, s)"
  shows "prefix props socketProps \<and> spawned s = (if err = None then [GoLoop] else []) \<and> (err = None \<longrightarrow> props = socketProps)"
proof -
  have "fst (defineProps setProp ps) = None \<Longrightarrow> snd (defineProps setProp ps) = ps" for setProp ps
    by (induction ps) (auto split: option.splits prod.splits)
  then have all: "defineProps setProp ps = (None, qs) \<Longrightarrow> qs = ps" for setProp ps qs by (metis fst_conv snd_conv)
  obtain e ps where d: "defineProps st socketProps = (e, ps)" by fastforce
  have "prefix ps socketProps" using defineProps_prefix [of st socketProps] by (simp add: d)
  then show ?thesis
    using assms all [of st socketProps ps] d
    by (cases e; cases "case args of [] \<Rightarrow> Inr \<lparr>soTags = []\<rparr> | a # _ \<Rightarrow> ex a")
      (auto simp: newSocketObject_def Let_def newSocket_def go_def)
qed

end
