(* ===== verification/Fixtures.thy ===== *)
theory Fixtures
  imports Module
begin

text \<open>
  A concrete environment in which the properties are evaluated: a virtual user with a clock
  that ticks once per effect, a network that answers at once, tag sets that are association
  lists, and a JavaScript engine whose values are integers, strings, bytes and \<open>null\<close>.
\<close>

definition exVU :: "strmap vu" where
  "exVU = \<lparr>tagWith = (\<lambda>t k x. (k, x) # t), tagWithMap = (\<lambda>t m. m @ t), CurrentTags = (\<lambda>_. []),
     Now = (\<lambda>n. int n * 1000000), CtxDone = (\<lambda>_. False), ResolveAddr = (\<lambda>_ _. Inr (''127.0.0.1'', 8080)),
     DialContext = (\<lambda>_ _ _. Inr (RawConn 0)), TLSConfig = None, Handshake = (\<lambda>_ _. None),
     LocalAddr = (\<lambda>_. Some (''127.0.0.1'', 40000)), SetReadDeadline = (\<lambda>_ _ _. None),
     ConnWrite = (\<lambda>_ _ bs. (length bs, None)), SelectSend = (\<lambda>_. Received),
     PoolGet = (\<lambda>_ used. Suc (sum_list used))\<rparr>"

definition exGolib :: golib where
  "exGolib = \<lparr>unicodeToLower = id, unicodeQuote = id\<rparr>"

definition exRegistry :: "string \<Rightarrow> metricType \<Rightarrow> bool \<Rightarrow> metric" where
  "exRegistry n t b = \<lparr>mName = n, mType = t, mIsTime = b\<rparr>"

definition exMetrics :: tcpMetrics where
  "exMetrics = newTCPMetrics exRegistry"

datatype exValue = VInt int64 | VString string | VBytes "byte list" | VNull

definition exSobek :: "exValue sobek" where
  "exSobek = \<lparr>ExportType = (\<lambda>x. case x of VInt _ \<Rightarrow> T_int64 | VString _ \<Rightarrow> T_string | VBytes _ \<Rightarrow> T_bytes | VNull \<Rightarrow> T_other),
     ToInteger = (\<lambda>x. case x of VInt i \<Rightarrow> i | _ \<Rightarrow> 0),
     ValueString = (\<lambda>x. case x of VString s \<Rightarrow> s | _ \<Rightarrow> ''null''),
     IsUndefined = (\<lambda>_. False), IsNull = (\<lambda>x. x = VNull),
     ExportOptions = (\<lambda>_. Inl (New ''not an object'')),
     ExportString = (\<lambda>x. case x of VString s \<Rightarrow> Inr s | _ \<Rightarrow> Inl (New ''not a string'')),
     ExportBytes = (\<lambda>x. case x of VBytes b \<Rightarrow> Inr b | _ \<Rightarrow> Inl (New ''not bytes'')),
     ExportArrayBuffer = (\<lambda>_. Inl (New ''not an ArrayBuffer''))\<rparr>"

definition exOptions :: connectOptions where
  "exOptions = \<lparr>Port = 8080, Host = ''localhost'', TLS = False, coTags = []\<rparr>"

text \<open>A socket before its connection, one that is connected, and what both have in common: handlers are numbers.\<close>

definition exNew :: "(nat, strmap) rt" where
  "exNew = (newSocket exMetrics)\<lparr>connectOpts := Some exOptions\<rparr>"

definition exOpen :: "(nat, strmap) rt" where
  "exOpen = exNew\<lparr>state := Open, conn := Some (RawConn 0), handlers := [''data'' \<mapsto> Callable 7]\<rparr>"

lemmas ex_simps = exVU_def exGolib_def exRegistry_def exMetrics_def exSobek_def exOptions_def exNew_def exOpen_def
  newSocket_def newTCPMetrics_def

lemma exVU_writer: "writer_bounds exVU" "io_writer exVU"
  by (simp_all add: writer_bounds_def io_writer_def exVU_def)

lemma exVU_pool: "pool_law exVU"
  using member_le_sum_list by (fastforce simp: pool_law_def exVU_def)

lemma exVU_tags: "tagset_laws exVU map_of"
  by (auto simp: tagset_laws_def exVU_def)

lemma exRegistry_laws: "registry_laws exRegistry"
  by (simp add: registry_laws_def exRegistry_def)

lemma exOpen_fields: "state exOpen = Open" "conn exOpen = Some (RawConn 0)" "handlers exOpen = [''data'' \<mapsto> Callable 7]"
  "connectOpts exOpen = Some exOptions" "destroyOnce exOpen = False" "timeout exOpen = 0" "isReadable exOpen" "sock_inv exOpen"
  by (simp_all add: exOpen_def exNew_def newSocket_def isReadable_def isConnected_def sock_inv_def events_def)

lemma exNew_fields: "state exNew = Disconnected" "conn exNew = None" "handlers exNew = Map.empty"
  "connectOpts exNew = Some exOptions" "destroyOnce exNew = False" "timeout exNew = 0" "sock_inv exNew"
  by (simp_all add: exNew_def newSocket_def sock_inv_def)

lemma exVU_select: "SelectSend exVU t = Received" "attentive exVU"
  by (simp_all add: exVU_def attentive_def)

definition exItem :: "byte list \<Rightarrow> goerror option \<Rightarrow> (nat, strmap) readItem" where
  "exItem bs err = \<lparr>during = id, rBytes = bs, rErr = err, after = id\<rparr>"

definition exItems :: "(nat, strmap) readItem list" where
  "exItems = [exItem [1, 2] None, exItem [3] (Some EOF)]"

lemma exItems_simps: "\<forall>i \<in> set exItems. quiet i" "concat (map rBytes (consumed exItems)) = [1, 2, 3]"
  by (simp_all add: exItems_def exItem_def quiet_def stream_end_def)

section \<open>A session\<close>

text \<open>
  A run of the machine: the script registers handlers for \<open>connect\<close>, \<open>data\<close> and \<open>close\<close> and connects;
  the goroutine 1 connects, goroutine 2 reads three bytes and hands them over.
\<close>

definition exTags :: strmap where
  "exTags = [(''port'', ''8080''), (''host'', ''localhost''), (''proto'', ''TCP'')]"

definition run2 :: "(nat, strmap) world" where
  "run2 = onSock (on ''close'' 3) (onSock (on ''data'' 2) (onSock (on ''connect'' 1) (start exMetrics)))"

definition run3 :: "(nat, strmap) world" where
  "run3 = goto 1 (ConnStart 0) (run2\<lparr>sk := go (GoConnect 0) ((sk run2)\<lparr>connectOpts := Some exOptions\<rparr>), promised := Suc 0\<rparr>)"

definition run4 :: "(nat, strmap) world" where
  "run4 = goto 1 (ConnResolve 0 exTags) (run3\<lparr>lock := Some 1, sk := (sk run3)\<lparr>state := Opening\<rparr>\<rparr>)"

definition run5 :: "(nat, strmap) world" where
  "run5 = goto 1 (ConnDial 0 exTags) (run4\<lparr>sk :=
     snd (addDurationMetricsFor exVU (tcpResolving (metrics (sk run4))) exTags (resolve exVU exOptions) (sk run4))\<rparr>)"

definition run6 :: "(nat, strmap) world" where
  "run6 = goto 1 (ConnFire 0 exTags) (run5\<lparr>lock := None, sk := snd (dialed exVU exOptions exTags (sk run5))\<rparr>)"

definition exConnectCb :: "nat callback" where
  "exConnectCb = \<lparr>cbEvent = ''connect'', cbHandler = 1, cbArgs = [], cbCleanup = None\<rparr>"

definition run7 :: "(nat, strmap) world" where
  "run7 = goto 1 (Sending exConnectCb (ConnSpawn 0 exTags)) run6"

definition run8 :: "(nat, strmap) world" where
  "run8 = goto 1 (ConnSpawn 0 exTags) (onSock (sendCallback exConnectCb) run7)"

definition run9 :: "(nat, strmap) world" where
  "run9 = goto 2 ReadHead (goto 1 (ConnDone 0 exTags) (onSock (go GoRead) run8))"

definition run10 :: "(nat, strmap) world" where
  "run10 = goto 2 ReadSnap run9"

definition run11 :: "(nat, strmap) world" where
  "run11 = goto 2 (ReadWait (RawConn 0)) (onSock (\<lambda>s. readBefore exVU (RawConn 0) (timeout s) s) run10)"

definition run12 :: "(nat, strmap) world" where
  "run12 = dataRead exVU 2 (RawConn 0) [1, 2, 3] None run11"

definition exDataCb :: "nat callback" where
  "exDataCb = \<lparr>cbEvent = ''data'', cbHandler = 2, cbArgs = [ArgBytes 1], cbCleanup = Some 1\<rparr>"

definition run13 :: "(nat, strmap) world" where
  "run13 = goto 2 (ReadCheck None) (onSock (sendCallback exDataCb) run12)"

abbreviation exStep :: "(nat, strmap) world \<Rightarrow> (nat, strmap) world \<Rightarrow> bool" where
  "exStep \<equiv> step exGolib exVU exSobek"

lemma run2_fields: "pcs run2 0 = JSReady" "pcs run2 1 = Unused" "promised run2 = 0" "lock run2 = None"
  "handlers (sk run2) = [''connect'' \<mapsto> Callable 1, ''data'' \<mapsto> Callable 2, ''close'' \<mapsto> Callable 3]" "sent (sk run2) = []" "inUse (sk run2) = []"
  "state (sk run2) = Disconnected" "timeout (sk run2) = 0" "vuDone run2 = False" "loopAlive run2 = True"
  "endpoints (sk run2) = emptyEndpoints" "socketOpts (sk run2) = \<lparr>soTags = []\<rparr>" "pcs run2 2 = Unused"
  by (simp_all add: run2_def start_def on_def events_def newSocket_def fun_eq_iff)

lemma run3_step: "exStep run2 run3"
proof -
  have "connectPrepare exSobek (VInt 8080) None (sk run2) = (None, (sk run2)\<lparr>connectOpts := Some exOptions\<rparr>)"
    by (simp add: connectPrepare_def hostOverride_def exSobek_def exOptions_def defaultHost_def)
  then show ?thesis
    using js_connect [OF run2_fields(1) _ run2_fields(2), of exSobek "VInt 8080" None _ 0 exGolib exVU]
    by (simp add: run2_fields run3_def)
qed

lemma run3_fields: "pcs run3 1 = ConnStart 0" "pcs run3 2 = Unused" "lock run3 = None"
  "connectOpts (sk run3) = Some exOptions" "tags exVU (sk run3) = exTags"
proof -
  show "tags exVU (sk run3) = exTags"
    by (simp add: run3_def tags_def Let_def currentTags_def exVU_def addToTagSet_def run2_fields exOptions_def
        emptyEndpoints_def exTags_def Itoa_def) (simp add: itoa_nat.simps char_of_eq_iff)
qed (simp_all add: run3_def run2_def start_def)

lemma run4_step: "exStep run3 run4"
  using conn_lock [OF run3_fields(1,3), of exGolib exVU exSobek] by (simp only: run4_def run3_fields(5))

lemma run4_fields: "pcs run4 1 = ConnResolve 0 exTags" "connectOpts (sk run4) = Some exOptions" "pcs run4 2 = Unused"
  by (simp_all add: run4_def run3_fields)

lemma run5_step: "exStep run4 run5"
proof -
  have "fst (addDurationMetricsFor exVU (tcpResolving (metrics (sk run4))) exTags (resolve exVU exOptions) (sk run4)) = None"
    by (simp add: addDurationMetricsFor_fst resolve_def exVU_def)
  then show ?thesis
    using conn_resolve [OF run4_fields(1,2), of exVU _ exGolib exSobek] unfolding run5_def by (metis prod.collapse)
qed

lemma run5_fields: "pcs run5 1 = ConnDial 0 exTags" "connectOpts (sk run5) = Some exOptions" "pcs run5 2 = Unused"
proof -
  have "connectOpts (snd (addDurationMetricsFor exVU (tcpResolving (metrics (sk run4))) exTags (resolve exVU exOptions) (sk run4))) =
      connectOpts (sk run4)"
    by (rule resolving_frames(6) [OF prod.collapse [symmetric]])
  then show "connectOpts (sk run5) = Some exOptions" by (simp add: run5_def run4_fields)
qed (simp_all add: run5_def run4_fields)

lemma run6_step: "exStep run5 run6"
proof -
  have "fst (dialed exVU exOptions exTags (sk run5)) = None"
    by (simp add: dialed_def addDurationMetricsFor_fst dial_def dialDone_def Let_def exVU_def exOptions_def)
  then show ?thesis
    using conn_dial [OF run5_fields(1,2), of exVU _ exGolib exSobek] unfolding run6_def by (metis prod.collapse)
qed

lemma run6_socket: "handlers (sk run6) = [''connect'' \<mapsto> Callable 1, ''data'' \<mapsto> Callable 2, ''close'' \<mapsto> Callable 3]" "sent (sk run6) = []"
  "inUse (sk run6) = []" "timeout (sk run6) = 0" "state (sk run6) = Open" "conn (sk run6) = Some (RawConn 0)"
proof -
  let ?s5 = "snd (addDurationMetricsFor exVU (tcpResolving (metrics (sk run4))) exTags (resolve exVU exOptions) (sk run4))"
  have u: "untouched (sk run4) (sk run6)"
    unfolding run6_def run5_def goto_simps
    using untouched_trans [OF addDurationMetricsFor_untouched [OF resolve_untouched] dialed_untouched]
    by (simp add: goto_def)
  have "handlers (sk run4) = handlers (sk run2)" "sent (sk run4) = sent (sk run2)" "inUse (sk run4) = inUse (sk run2)"
    "timeout (sk run4) = timeout (sk run2)"
    by (simp_all add: run4_def run3_def go_def)
  with u show "handlers (sk run6) = [''connect'' \<mapsto> Callable 1, ''data'' \<mapsto> Callable 2, ''close'' \<mapsto> Callable 3]" "sent (sk run6) = []"
    "inUse (sk run6) = []" "timeout (sk run6) = 0"
    by (simp_all add: untouched_def run2_fields)
  show "state (sk run6) = Open" "conn (sk run6) = Some (RawConn 0)"
    by (simp_all add: run6_def dialed_def addDurationMetricsFor_fields dial_def Let_def exVU_def exOptions_def dialDone_state)
qed

lemma run6_fields: "pcs run6 1 = ConnFire 0 exTags" "pcs run6 2 = Unused" "lock run6 = None"
  "loopAlive run6" "\<not> vuDone run6" "pcs run6 0 = JSReady"
  by (simp_all add: run6_def run5_def run4_def run3_def run2_fields)

lemma run7_step: "exStep run6 run7"
proof -
  have "firing ''connect'' [] (sk run6) (ConnSpawn 0 exTags) = Sending exConnectCb (ConnSpawn 0 exTags)"
    by (simp add: firing_def prepareCallback_def run6_socket exConnectCb_def)
  then show ?thesis using conn_fire [OF run6_fields(1), of exGolib exVU exSobek] by (simp only: run7_def)
qed

lemma run8_step: "exStep run7 run8"
  unfolding run8_def by (rule send) (simp_all add: run7_def run6_fields)

lemma run9_step: "exStep run8 run9"
  unfolding run9_def by (rule conn_spawn) (simp_all add: run8_def run7_def run6_fields)

lemma run10_step: "exStep run9 run10"
proof -
  have "isReadable (sk run9)" by (simp add: run9_def run8_def run7_def run6_socket isReadable_def isConnected_def)
  moreover have "pcs run9 2 = ReadHead" "lock run9 = None" by (simp_all add: run9_def run8_def run7_def run6_fields)
  ultimately show ?thesis unfolding run10_def using read_head [of run9 2 exGolib exVU exSobek] by simp
qed

lemma run11_step: "exStep run10 run11"
  unfolding run11_def
  by (rule read_snap) (simp_all add: run10_def run9_def run8_def run7_def run6_fields run6_socket)

lemma run11_fields: "pcs run11 2 = ReadWait (RawConn 0)" "pcs run11 1 = ConnDone 0 exTags" "loopAlive run11" "\<not> vuDone run11"
  "handlers (sk run11) = [''connect'' \<mapsto> Callable 1, ''data'' \<mapsto> Callable 2, ''close'' \<mapsto> Callable 3]" "sent (sk run11) = [exConnectCb]"
  "inUse (sk run11) = []" "ran run11 = 0" "running run11 = None" "lock run11 = None" "pcs run11 0 = JSReady"
  "state (sk run11) = Open" "conn (sk run11) = Some (RawConn 0)"
  by (simp_all add: run11_def run10_def run9_def run8_def run7_def run6_fields run6_socket readBefore_def
      sendCallback_def go_def) (simp_all add: run6_def run5_def run4_def run3_def run2_def start_def)

lemma run12_step: "exStep run11 run12"
  unfolding run12_def by (rule read_data) (simp_all add: run11_fields)

lemma run12_fields: "pcs run12 = (pcs run11)(2 := Sending exDataCb (ReadCheck None))" "inUse (sk run12) = [1]"
  "heap (sk run12) 1 = [1, 2, 3]"
  by (simp_all add: run12_def dataRead_def Let_def prepareCallback_def run11_fields exDataCb_def) (simp_all add: exVU_def)

lemma run13_step: "exStep run12 run13"
  unfolding run13_def by (rule send) (simp_all add: run12_fields, simp add: run12_def run11_fields)

lemma run13_fields: "sent (sk run13) = [exConnectCb, exDataCb]" "loopAlive run13" "\<not> vuDone run13"
  "pcs run13 2 = ReadCheck None" "lock run13 = None" "pcs run13 0 = JSReady" "pcs run13 1 = ConnDone 0 exTags"
  by (simp_all add: run13_def run12_fields run11_fields del: One_nat_def)
    (simp_all add: run12_def run11_fields del: One_nat_def)

lemma run12_steps: "exStep\<^sup>*\<^sup>* run2 run12"
  by ((rule converse_rtranclp_into_rtranclp, rule run3_step run4_step run5_step run6_step run7_step run8_step run9_step
        run10_step run11_step run12_step)+, rule rtranclp.rtrancl_refl)

lemma run13_steps: "exStep\<^sup>*\<^sup>* run2 run13"
  by (rule rtranclp.rtrancl_into_rtrancl [OF run12_steps run13_step])

lemma run2_reach: "reach (listening exMetrics) exStep run2" "reachable exGolib exVU exSobek exMetrics run2"
proof -
  let ?w1 = "onSock (on ''connect'' 1) (start exMetrics) :: (nat, strmap) world"
  let ?w2 = "onSock (on ''data'' 2) ?w1"
  have one: "exStep (start exMetrics) ?w1" by (rule js_on) (simp add: start_def)
  have two: "exStep ?w1 ?w2" by (rule js_on) (simp add: start_def)
  have three: "exStep ?w2 run2" unfolding run2_def by (rule js_on) (simp add: start_def)
  have steps: "exStep\<^sup>*\<^sup>* ?w1 run2" using two three by (blast intro: rtranclp.intros)
  have "listening exMetrics ?w1" by (auto simp: listening_def)
  then have "reach (listening exMetrics) exStep ?w1" by (rule reach_init)
  with steps show "reach (listening exMetrics) exStep run2" by (rule reach_trans)
  have "reachable exGolib exVU exSobek exMetrics (start exMetrics :: (nat, strmap) world)" by (rule reach_init) simp
  then have "reachable exGolib exVU exSobek exMetrics ?w1" using one by (rule reach_step)
  with steps show "reachable exGolib exVU exSobek exMetrics run2" by (rule reach_trans)
qed

lemma run12_reach: "reachable exGolib exVU exSobek exMetrics run12"
  using reach_trans [OF run12_steps] run2_reach by blast

lemma run13_reach: "reach (listening exMetrics) exStep run13" "reachable exGolib exVU exSobek exMetrics run13"
  using reach_trans [OF run13_steps] run2_reach by blast+

text \<open>Another continuation of the session: the script destroys the socket while goroutine 1 offers its \<open>connect\<close> event.\<close>

definition hang2 :: "(nat, strmap) world" where
  "hang2 = goto 0 (DestroyLock JSReady) ((goto 0 (DestroyEnter JSReady) run7)\<lparr>onceSt := Running 0\<rparr>)"

definition hang3 :: "(nat, strmap) world" where
  "hang3 = goto 0 (DestroyClose (fst (destroyLocked exVU (sk hang2))) JSReady) (onSock (\<lambda>s. snd (destroyLocked exVU s)) hang2)"

definition hang4 :: "(nat, strmap) world" where
  "hang4 = goto 0 (DestroyFire JSReady) (onSock (destroyClose exVU (fst (destroyLocked exVU (sk hang2)))) hang3)"

definition exCloseCb :: "nat callback" where
  "exCloseCb = \<lparr>cbEvent = ''close'', cbHandler = 3, cbArgs = [], cbCleanup = None\<rparr>"

definition hang6 :: "(nat, strmap) world" where
  "hang6 = goto 0 (DestroyCancel JSReady) (onSock (sendCallback exCloseCb) (goto 0 (Sending exCloseCb (DestroyCancel JSReady)) hang4))"

definition hang8 :: "(nat, strmap) world" where
  "hang8 = (goto 0 JSReady (hang6\<lparr>onceSt := OnceDone, sk := (sk hang6)\<lparr>cancelled := True, destroyOnce := True\<rparr>\<rparr>))\<lparr>loopAlive := False\<rparr>"

lemma run7_fields: "pcs run7 0 = JSReady" "pcs run7 1 = Sending exConnectCb (ConnSpawn 0 exTags)" "onceSt run7 = Fresh" "lock run7 = None"
  "loopAlive run7" "\<not> vuDone run7" "handlers (sk run7) ''close'' = Some (Callable 3)" "sent (sk run7) = []"
  by (simp_all add: run7_def run6_fields run6_socket)
    (simp_all add: run6_def run5_def run4_def run3_def run2_def start_def)

lemma four_steps: "R a b \<Longrightarrow> R b c \<Longrightarrow> R c d \<Longrightarrow> R d e \<Longrightarrow> R\<^sup>*\<^sup>* a e"
  by (intro converse_rtranclp_into_rtranclp [of R a b] converse_rtranclp_into_rtranclp [of R b c]
      converse_rtranclp_into_rtranclp [of R c d] converse_rtranclp_into_rtranclp [of R d e] rtranclp.rtrancl_refl)

lemma hang4_fields: "pcs hang4 0 = DestroyFire JSReady" "pcs hang4 1 = Sending exConnectCb (ConnSpawn 0 exTags)"
  "loopAlive hang4" "\<not> vuDone hang4" "handlers (sk hang4) ''close'' = Some (Callable 3)" "sent (sk hang4) = []"
  by (simp_all add: hang4_def hang3_def hang2_def run7_fields destroyLocked_state del: One_nat_def)

lemma hang4_steps: "exStep\<^sup>*\<^sup>* run7 hang4"
proof -
  have "exStep run7 (goto 0 (DestroyEnter JSReady) run7)" by (rule js_destroy) (rule run7_fields)
  moreover have "exStep (goto 0 (DestroyEnter JSReady) run7) hang2"
    unfolding hang2_def by (rule destroy_first) (simp_all add: run7_fields)
  moreover have "exStep hang2 hang3"
    unfolding hang3_def by (rule destroy_lock) (simp_all add: hang2_def run7_fields)
  moreover have "exStep hang3 hang4"
    unfolding hang4_def by (rule destroy_close) (simp add: hang3_def)
  ultimately show ?thesis by (rule four_steps)
qed

lemma hang8_steps: "exStep\<^sup>*\<^sup>* hang4 hang8"
proof -
  let ?h5 = "goto 0 (Sending exCloseCb (DestroyCancel JSReady)) hang4"
  let ?h7 = "goto 0 JSReady (hang6\<lparr>onceSt := OnceDone, sk := (sk hang6)\<lparr>cancelled := True, destroyOnce := True\<rparr>\<rparr>)"
  have "firing ''close'' [] (sk hang4) (DestroyCancel JSReady) = Sending exCloseCb (DestroyCancel JSReady)"
    by (simp add: firing_def prepareCallback_def hang4_fields exCloseCb_def)
  then have "exStep hang4 ?h5" using destroy_fire [OF hang4_fields(1), of exGolib exVU exSobek] by simp
  moreover have "exStep ?h5 hang6" unfolding hang6_def by (rule send) (simp_all add: hang4_fields)
  moreover have "exStep hang6 ?h7" by (rule destroy_cancel) (simp add: hang6_def)
  moreover have "exStep ?h7 hang8"
    unfolding hang8_def by (rule loop_exit) (simp_all add: hang6_def hang4_fields)
  ultimately show ?thesis by (rule four_steps)
qed

lemma run7_steps: "exStep\<^sup>*\<^sup>* run2 run7"
  by ((rule converse_rtranclp_into_rtranclp, rule run3_step run4_step run5_step run6_step run7_step)+, rule rtranclp.rtrancl_refl)

lemma hang8_reach: "reachable exGolib exVU exSobek exMetrics hang8"
  using reach_trans [OF hang8_steps reach_trans [OF hang4_steps reach_trans [OF run7_steps run2_reach(2)]]] .

lemma hang8_fields: "pcs hang8 1 = Sending exConnectCb (ConnSpawn 0 exTags)" "\<not> loopAlive hang8" "sent (sk hang8) = [exCloseCb]"
  by (simp_all add: hang8_def hang6_def hang4_fields del: One_nat_def)

lemma hang8_connect: "GoConnect 0 \<in> set (spawned (sk hang8))"
proof -
  have "spawned (sk run7) = spawned (sk run3)"
    using connectLocked_untouched [of "sk run3" exVU exOptions exTags]
    by (simp add: run7_def run6_def run5_def run4_def dialed_untouched [unfolded untouched_def]
        addDurationMetricsFor_untouched [OF resolve_untouched, unfolded untouched_def])
  then have "GoConnect 0 \<in> set (spawned (sk run7))" by (simp add: run3_def go_def)
  moreover have "grows (sk run7) (sk hang4)"
    using torn_grows [of "sk run7" exVU] by (simp add: hang4_def hang3_def hang2_def torn_def)
  ultimately have "GoConnect 0 \<in> set (spawned (sk hang4))" by (auto simp: grows_def prefix_def)
  then show ?thesis by (simp add: hang8_def hang6_def sendCallback_def)
qed

end
