(* ===== verification/EchoFixtures.thy ===== *)
theory EchoFixtures
  imports RoundTrip Fixtures
begin

text \<open>
  A session with the echo server that comes to its end: the script of the theory \<open>Fixtures\<close> connects,
  writes three bytes, the server echoes them, the reader gets them, and the handler is given them.
\<close>

abbreviation exTalk :: "(nat, strmap) session \<Rightarrow> (nat, strmap) session \<Rightarrow> bool" where
  "exTalk \<equiv> talk exGolib exVU exSobek (RawConn 0)"

abbreviation exNoOpts :: writeOptions where
  "exNoOpts \<equiv> \<lparr>Encoding = '''', woTags = []\<rparr>"

definition hear1 :: "(nat, strmap) world" where
  "hear1 = goto 3 (WriteStart 1 [10, 20, 30] exNoOpts) (onSock (go (GoWrite 1 [10, 20, 30] exNoOpts)) (run11\<lparr>promised := 2\<rparr>))"

definition hear2 :: "(nat, strmap) world" where
  "hear2 = goto 3 (WriteRun 1 (RawConn 0) [10, 20, 30] 0 exNoOpts) hear1"

definition hear3 :: "(nat, strmap) world" where
  "hear3 = goto 3 (WriteRun 1 (RawConn 0) [10, 20, 30] (0 + 3) exNoOpts)
     (onSock (\<lambda>s. (wrote (RawConn 0) [10, 20, 30] 0 3 None s)\<lparr>totalWritten := totalWritten s + of_nat 3\<rparr>) hear2)"

definition hear4 :: "(nat, strmap) world" where
  "hear4 = dataRead exVU 2 (RawConn 0) [10, 20, 30] None hear3"

definition hear5 :: "(nat, strmap) world" where
  "hear5 = goto 2 (ReadCheck None) (onSock (sendCallback exDataCb) hear4)"

definition hear6 :: "(nat, strmap) world" where
  "hear6 = hear5\<lparr>running := Some exConnectCb, ran := Suc (ran hear5)\<rparr>"

definition hear7 :: "(nat, strmap) world" where
  "hear7 = onSock (bufferPut (cbCleanup exConnectCb)) (hear6\<lparr>running := None\<rparr>)"

definition hear8 :: "(nat, strmap) world" where
  "hear8 = hear7\<lparr>running := Some exDataCb, ran := Suc (ran hear7)\<rparr>"

definition exEchoRound :: copyRound where
  "exEchoRound = \<lparr>crBytes = [10, 20, 30], crErr = None, crWritten = 3, crWriteErr = None\<rparr>"

definition heard :: "(nat, strmap) session" where
  "heard = \<lparr>client = hear8, served = [exEchoRound], incoming = [10, 20, 30], seen = [10, 20, 30]\<rparr>"

section \<open>Up to the write\<close>

text \<open>Steps that neither read bytes nor run callbacks.\<close>

definition exQuiet :: "(nat, strmap) world \<Rightarrow> (nat, strmap) world \<Rightarrow> bool" where
  "exQuiet w w' \<longleftrightarrow> exStep w w' \<and> bytesRead (sk w') = bytesRead (sk w) \<and> ran w' = ran w"

lemma quiet_talk: "exQuiet\<^sup>*\<^sup>* w w' \<Longrightarrow> client x = w \<Longrightarrow> exTalk\<^sup>*\<^sup>* x (x\<lparr>client := w'\<rparr>)"
proof (induction rule: rtranclp_induct)
  case (step u w')
  have "exTalk (x\<lparr>client := u\<rparr>) (x\<lparr>client := u\<rparr>\<lparr>client := w'\<rparr>)"
    using step(2) by (intro talk_step) (simp_all add: exQuiet_def)
  then show ?case using step by (simp add: rtranclp.rtrancl_into_rtrancl)
qed auto

lemma run_up: "untouched (sk run4) (sk run5)" "untouched (sk run5) (sk run6)"
  using addDurationMetricsFor_untouched [OF resolve_untouched] dialed_untouched
  by (auto simp: run5_def run6_def goto_def)

lemma run_counts:
  "bytesRead (sk run3) = 0 \<and> bytesRead (sk run4) = 0 \<and> bytesRead (sk run5) = 0 \<and> bytesRead (sk run6) = 0"
  "ran run3 = 0 \<and> ran run4 = 0 \<and> ran run5 = 0 \<and> ran run6 = 0"
proof -
  have two: "totalRead (sk run2) = 0" by (simp add: run2_def start_def newSocket_def on_def)
  then have "totalRead (sk run4) = 0" by (simp add: run4_def run3_def go_def)
  then show "bytesRead (sk run3) = 0 \<and> bytesRead (sk run4) = 0 \<and> bytesRead (sk run5) = 0 \<and> bytesRead (sk run6) = 0"
    using run_up two by (simp add: untouched_def bytesRead_def run3_def go_def)
  show "ran run3 = 0 \<and> ran run4 = 0 \<and> ran run5 = 0 \<and> ran run6 = 0"
    by (simp add: run3_def run4_def run5_def run6_def run2_def start_def)
qed

lemma run6_net: "uploaded c (net (sk run6)) = []" "spawned (sk run6) = [GoConnect 0]" "pcs run6 3 = Unused" "promised run6 = 1"
proof -
  have four: "net (sk run4) = []" "spawned (sk run4) = [GoConnect 0]" "timeout (sk run4) = 0"
    by (simp_all add: run4_def run3_def run2_def start_def newSocket_def on_def go_def)
  then have five: "net (sk run5) = []" "timeout (sk run5) = 0"
    using run_up(1) by (simp_all add: run5_def addDurationMetricsFor_fields resolve_def untouched_def split: sum.split)
  show "spawned (sk run6) = [GoConnect 0]" using four run_up by (simp add: untouched_def)
  have "net (sk run6) = [OpDial (remoteAddr (endpoints (sk run5)))]"
    using five by (simp add: run6_def dialed_def addDurationMetricsFor_fields dial_def dialDone_def Let_def exVU_def exOptions_def
        netcall_def ticked_def)
  then show "uploaded c (net (sk run6)) = []" by (simp add: uploaded_def)
qed (simp_all add: run6_def run5_def run4_def run3_def run2_def start_def)

lemma run11_more: "uploaded c (net (sk run11)) = []" "spawned (sk run11) = [GoConnect 0, GoRead]" "pcs run11 3 = Unused"
  "promised run11 = 1" "bytesRead (sk run11) = 0"
  using run6_net run_counts(1) run6_socket(4)
  by (simp_all add: run11_def run10_def run9_def run8_def run7_def readBefore_def sendCallback_def go_def bytesRead_def)

lemma run_quiet: "exQuiet\<^sup>*\<^sup>* run2 run11"
proof -
  have two: "bytesRead (sk run2) = 0" "ran run2 = 0" by (simp_all add: run2_def start_def newSocket_def on_def bytesRead_def)
  have "exQuiet run2 run3" "exQuiet run3 run4" "exQuiet run4 run5" "exQuiet run5 run6"
    using run_counts two run3_step run4_step run5_step run6_step by (simp_all add: exQuiet_def)
  moreover have "exQuiet run6 run7" "exQuiet run7 run8" "exQuiet run8 run9" "exQuiet run9 run10"
    unfolding exQuiet_def using run7_step run8_step run9_step run10_step
    by (simp_all add: bytesRead_def run10_def run9_def run8_def run7_def)
  moreover have "exQuiet run10 run11"
    unfolding exQuiet_def using run11_step by (simp add: bytesRead_def run11_def)
  ultimately show ?thesis
    by - ((rule converse_rtranclp_into_rtranclp, assumption)+, rule rtranclp.rtrancl_refl)
qed

lemma start_quiet: "exQuiet\<^sup>*\<^sup>* (client (talkStart exMetrics 2)) run2"
proof -
  let ?w0 = "client (talkStart exMetrics 2) :: (nat, strmap) world"
  let ?w1 = "onSock (on ''connect'' 1) ?w0"
  let ?w2 = "onSock (on ''close'' 3) ?w1"
  have a: "exQuiet ?w0 ?w1" unfolding exQuiet_def
    by (intro conjI js_on) (simp_all add: talkStart_def start_def bytesRead_def on_def)
  have b: "exQuiet ?w1 ?w2" unfolding exQuiet_def
    by (intro conjI js_on) (simp_all add: talkStart_def start_def bytesRead_def on_def)
  have "?w2 = run2"
    by (simp add: run2_def talkStart_def onSock_def on_def events_def fun_upd_twist)
  with converse_rtranclp_into_rtranclp [of exQuiet, OF a r_into_rtranclp [of exQuiet, OF b]] show ?thesis by (simp only:)
qed

section \<open>The write and its echo\<close>

lemma hear1_quiet: "exQuiet run11 hear1"
proof -
  have "writePrepare exGolib exSobek (VBytes [10, 20, 30]) None = (Inr [10, 20, 30], exNoOpts)"
    by (simp add: writePrepare_def stringOrArrayBuffer_def exSobek_def)
  from js_write [OF run11_fields(11) this run11_more(3), of 1 exVU] show ?thesis
    by (simp add: exQuiet_def hear1_def run11_more bytesRead_def go_def onSock_def numeral_2_eq_2)
qed

lemma hear2_quiet: "exQuiet hear1 hear2"
  unfolding exQuiet_def hear2_def
  by (intro conjI write_start) (simp_all add: hear1_def run11_fields go_def)

lemma hear3_quiet: "exQuiet hear2 hear3"
  unfolding exQuiet_def hear3_def
  by (intro conjI write_frag) (simp_all add: hear2_def exVU_def bytesRead_def wrote_def netcall_def)

lemma hear3_fields: "uploaded (RawConn 0) (net (sk hear3)) = [10, 20, 30]" "pcs hear3 2 = ReadWait (RawConn 0)"
  "handlers (sk hear3) = handlers (sk run11)" "inUse (sk hear3) = []" "sent (sk hear3) = [exConnectCb]" "ran hear3 = 0"
  "running hear3 = None" "pcs hear3 0 = JSReady" "loopAlive hear3" "\<not> vuDone hear3" "connects (sk hear3) = 1"
  using run11_more(1,2)
  by (simp_all add: hear3_def hear2_def hear1_def wrote_def netcall_def go_def run11_fields uploaded_def connects_def)

lemma hear5_quiet: "exQuiet hear4 hear5"
  unfolding exQuiet_def hear5_def
proof (intro conjI send)
  show "pcs hear4 2 = Sending exDataCb (ReadCheck None)"
    by (simp add: hear4_def dataRead_def Let_def prepareCallback_def hear3_fields run11_fields exDataCb_def) (simp add: exVU_def)
qed (simp_all add: hear4_def hear3_fields bytesRead_def sendCallback_def)

lemma hear5_fields: "sent (sk hear5) = [exConnectCb, exDataCb]" "ran hear5 = 0" "running hear5 = None" "pcs hear5 0 = JSReady"
  "heap (sk hear5) 1 = [10, 20, 30]" "\<not> vuDone hear5" "connects (sk hear5) = 1" "uploaded (RawConn 0) (net (sk hear5)) = [10, 20, 30]"
proof -
  have "pcs hear4 0 = JSReady"
    using dataRead_pcs [of exVU 2 "RawConn 0" "[10, 20, 30]" None hear3] hear3_fields(8) by (auto simp: hear4_def)
  then show "pcs hear5 0 = JSReady" by (simp add: hear5_def)
  have "heap (sk hear4) 1 = [10, 20, 30]"
    by (simp add: hear4_def dataRead_def Let_def hear3_fields split: option.split) (simp add: exVU_def)
  then show "heap (sk hear5) 1 = [10, 20, 30]" by (simp add: hear5_def)
  have "net (sk hear4) = net (sk hear3) @ [OpRead (RawConn 0) 3]"
    by (simp add: hear4_def dataRead_def Let_def bufferFilled_def gotBytes_def addCounterMetrics_def push_def netcall_def ticked_def
        split: option.split)
  then show "uploaded (RawConn 0) (net (sk hear5)) = [10, 20, 30]"
    using hear3_fields(1) by (simp add: hear5_def sendCallback_def uploaded_def)
  show "connects (sk hear5) = 1" using hear3_fields(11) by (simp add: hear5_def hear4_def connects_def)
qed (simp_all add: hear5_def hear4_def hear3_fields)

abbreviation heardBy :: "(nat, strmap) world \<Rightarrow> copyRound list \<Rightarrow> byte list \<Rightarrow> byte list \<Rightarrow> (nat, strmap) session" where
  "heardBy w rs got given \<equiv> \<lparr>client = w, served = rs, incoming = got, seen = given\<rparr>"

lemma heard_up: "exTalk\<^sup>*\<^sup>* (talkStart exMetrics 2) (heardBy hear5 [exEchoRound] [10, 20, 30] [])"
proof -
  have "exTalk\<^sup>*\<^sup>* (talkStart exMetrics 2) ((talkStart exMetrics 2)\<lparr>client := hear3\<rparr>)"
    using rtranclp_trans [OF start_quiet run_quiet] hear1_quiet hear2_quiet hear3_quiet
    by (intro quiet_talk) (simp_all add: rtranclp.rtrancl_into_rtrancl)
  then have "exTalk\<^sup>*\<^sup>* (talkStart exMetrics 2) (heardBy hear3 [] [] [])" by (simp add: talkStart_def)
  moreover have "exTalk (heardBy hear3 [] [] []) (heardBy hear3 [exEchoRound] [] [])"
    using talk_echo [of "heardBy hear3 [] [] []" exEchoRound "RawConn 0" exGolib exVU exSobek]
    by (simp add: hear3_fields received_def exEchoRound_def endsCopy_def copyWrite_def)
  moreover have "exTalk (heardBy hear3 [exEchoRound] [] []) (heardBy hear4 [exEchoRound] [10, 20, 30] [])"
    using talk_read [of "heardBy hear3 [exEchoRound] [] []" 2 "RawConn 0" "[10, 20, 30]" exGolib exVU exSobek None]
    by (simp add: hear3_fields exEchoRound_def copyWrite_def hear4_def)
  moreover have "exTalk (heardBy hear4 [exEchoRound] [10, 20, 30] []) (heardBy hear5 [exEchoRound] [10, 20, 30] [])"
    using talk_step [of exGolib exVU exSobek "heardBy hear4 [exEchoRound] [10, 20, 30] []" hear5] hear5_quiet
    by (simp add: exQuiet_def)
  ultimately show ?thesis by (simp add: rtranclp.rtrancl_into_rtrancl)
qed

lemma hear7_fields: "sent (sk hear7) = [exConnectCb, exDataCb]" "ran hear7 = 1" "running hear7 = None" "pcs hear7 0 = JSReady"
  "heap (sk hear7) 1 = [10, 20, 30]"
  using hear5_fields by (simp_all add: hear7_def hear6_def)

lemma heard_down: "exTalk\<^sup>*\<^sup>* (heardBy hear5 [exEchoRound] [10, 20, 30] []) heard"
proof -
  have "exTalk (heardBy hear5 [exEchoRound] [10, 20, 30] []) (heardBy hear6 [exEchoRound] [10, 20, 30] [])"
    using talk_handler [of "heardBy hear5 [exEchoRound] [10, 20, 30] []" exConnectCb 1 "[]" exGolib exVU exSobek "RawConn 0"]
    by (simp add: hear5_fields hear6_def runCallback_def exConnectCb_def)
  moreover have "exTalk (heardBy hear6 [exEchoRound] [10, 20, 30] []) (heardBy hear7 [exEchoRound] [10, 20, 30] [])"
    using talk_step [of exGolib exVU exSobek "heardBy hear6 [exEchoRound] [10, 20, 30] []" hear7]
      js_return [of hear6 exConnectCb exGolib exVU exSobek]
    by (simp add: hear7_def hear6_def hear5_fields bytesRead_def)
  moreover have "exTalk (heardBy hear7 [exEchoRound] [10, 20, 30] []) heard"
    using talk_handler [of "heardBy hear7 [exEchoRound] [10, 20, 30] []" exDataCb 2 "[JSBytes [10, 20, 30]]" exGolib exVU exSobek
        "RawConn 0"]
    by (simp add: hear7_fields heard_def hear8_def runCallback_def exDataCb_def del: One_nat_def)
  ultimately show ?thesis by (meson converse_rtranclp_into_rtranclp rtranclp.rtrancl_refl)
qed

lemma heard_reach: "reach (\<lambda>x. x = talkStart exMetrics 2) exTalk heard"
  by (rule reach_trans [OF rtranclp_trans [OF heard_up heard_down] reach_init]) simp

lemma heard_fields: "\<not> vuDone (client heard)" "connects (sk (client heard)) = 1"
  "uploaded (RawConn 0) (net (sk (client heard))) = [10, 20, 30]" "seen heard = [10, 20, 30]"
  using hear5_fields by (simp_all add: heard_def hear8_def hear7_def hear6_def connects_def)

end
