(* ===== verification/Echo.thy ===== *)
theory Echo
  imports EchoTCP "HOL-Library.Multiset"
begin

text \<open>
  The echo servers as their callers see them (\<open>internal/echo/server.go\<close>, \<open>server_http.go\<close> and the
  constructor, \<open>Start\<close>, \<open>Stop\<close> and accessors of \<open>server_tcp.go\<close>): listeners opened and closed,
  goroutines started, environment variables exported, and the answer of the HTTP echo handler. The
  operating system is a parameter: what \<open>Listen\<close>, \<open>Close\<close>, \<open>os.Setenv\<close> and \<open>Shutdown\<close> return.
\<close>

section \<open>The operating system\<close>

record 'l oslib =
  netListen :: "nat \<Rightarrow> string \<Rightarrow> string \<Rightarrow> 'l result"
  tcpAddrPort :: "'l \<Rightarrow> int option"
  addrString :: "'l \<Rightarrow> string"
  lnClose :: "nat \<Rightarrow> 'l \<Rightarrow> goerror option"
  osSetenv :: "nat \<Rightarrow> string \<Rightarrow> string \<Rightarrow> goerror option"
  httpShutdown :: "nat \<Rightarrow> duration \<Rightarrow> goerror option"

text \<open>
  The listeners opened and closed so far, those an accept loop and those an HTTP server was started
  on, the environment and the log.
\<close>

record 'l os =
  opened :: "'l list"
  closed :: "'l list"
  accepting :: "'l list"
  httpServing :: "'l list"
  environ :: "string \<rightharpoonup> string"
  oslogs :: "(level \<times> string) list"
  ostick :: nat

definition slog :: "level \<Rightarrow> string \<Rightarrow> 'l os \<Rightarrow> 'l os" where
  "slog lv msg s = s\<lparr>oslogs := oslogs s @ [(lv, msg)]\<rparr>"

definition osticked :: "'l os \<Rightarrow> 'l os" where
  "osticked s = s\<lparr>ostick := Suc (ostick s)\<rparr>"

definition listen :: "'l oslib \<Rightarrow> string \<Rightarrow> 'l os \<Rightarrow> 'l result \<times> 'l os" where
  "listen lib addr s = (case netListen lib (ostick s) ''tcp'' addr of
       Inl err \<Rightarrow> (Inl err, osticked s)
     | Inr l \<Rightarrow> (Inr l, (osticked s)\<lparr>opened := opened s @ [l]\<rparr>))"

definition closeListener :: "'l oslib \<Rightarrow> 'l \<Rightarrow> 'l os \<Rightarrow> goerror option \<times> 'l os" where
  "closeListener lib l s = (lnClose lib (ostick s) l, (osticked s)\<lparr>closed := closed s @ [l]\<rparr>)"

section \<open>The TCP server\<close>

definition host :: string where
  "host = ''localhost''"

definition ErrInvalidTCPAddress :: goerror where
  "ErrInvalidTCPAddress = New ''failed to get TCP address''"

record 'l tcpServer =
  tcpListener :: 'l
  tcpDone :: bool
  tcpWg :: int
  tcpPort :: int

definition NewTCPServer :: "'l oslib \<Rightarrow> 'l os \<Rightarrow> 'l tcpServer result \<times> 'l os" where
  "NewTCPServer lib s = (case listen lib (host @ '':0'') s of
       (Inl err, s1) \<Rightarrow> (Inl (Errorf ''failed to create TCP listener: '' err ''''), s1)
     | (Inr l, s1) \<Rightarrow>
         (case tcpAddrPort lib l of
            None \<Rightarrow> (Inl ErrInvalidTCPAddress, snd (closeListener lib l s1))
          | Some p \<Rightarrow> (Inr \<lparr>tcpListener = l, tcpDone = False, tcpWg = 0, tcpPort = p\<rparr>, s1)))"

definition tcpStart :: "'l tcpServer \<Rightarrow> 'l os \<Rightarrow> 'l tcpServer \<times> 'l os" where
  "tcpStart t s =
     (let s1 = slog LevelDebug ''Starting TCP echo server...'' s
      in (t\<lparr>tcpWg := tcpWg t + 1\<rparr>, s1\<lparr>accepting := accepting s1 @ [tcpListener t]\<rparr>))"

text \<open>
  \<open>Stop\<close> panics on a closed channel; otherwise it closes the listener and returns when the counter
  is down to zero, which the machine of \<open>EchoTCP\<close> shows to happen.
\<close>

definition tcpStop :: "'l oslib \<Rightarrow> 'l tcpServer \<Rightarrow> 'l os \<Rightarrow> goerror option \<times> 'l tcpServer \<times> 'l os" where
  "tcpStop lib t s =
     (let s1 = slog LevelDebug ''Stopping TCP echo server...'' s in
      if tcpDone t then (Some (Panic ''close of closed channel''), t, s1)
      else
        (let (err, s2) = closeListener lib (tcpListener t) s1;
             s3 = (if err \<noteq> None then slog LevelError ''Error closing TCP listener'' s2 else s2)
         in (None, t\<lparr>tcpDone := True, tcpWg := 0\<rparr>, slog LevelDebug ''TCP echo server stopped'' s3)))"

definition tcpAddress :: "'l oslib \<Rightarrow> 'l tcpServer \<Rightarrow> string" where
  "tcpAddress lib t = addrString lib (tcpListener t)"

section \<open>The HTTP server\<close>

definition ErrInvalidHTTPAddress :: goerror where
  "ErrInvalidHTTPAddress = New ''failed to get HTTP address''"

definition ErrServerClosed :: goerror where
  "ErrServerClosed = New ''http: Server closed''"

definition defaultHTTPTimeout :: duration where
  "defaultHTTPTimeout = 5 * Second"

record 'l httpServer =
  httpListener :: 'l
  httpPattern :: string
  ReadHeaderTimeout :: duration
  httpPort :: int

definition NewHTTPServer :: "'l oslib \<Rightarrow> 'l os \<Rightarrow> 'l httpServer result \<times> 'l os" where
  "NewHTTPServer lib s = (case listen lib (host @ '':0'') s of
       (Inl err, s1) \<Rightarrow> (Inl (Errorf ''failed to create HTTP listener: '' err ''''), s1)
     | (Inr l, s1) \<Rightarrow>
         (case tcpAddrPort lib l of
            None \<Rightarrow> (Inl ErrInvalidHTTPAddress, snd (closeListener lib l s1))
          | Some p \<Rightarrow>
              (Inr \<lparr>httpListener = l, httpPattern = ''/'', ReadHeaderTimeout = defaultHTTPTimeout, httpPort = p\<rparr>, s1)))"

definition httpStart :: "'l httpServer \<Rightarrow> 'l os \<Rightarrow> 'l os" where
  "httpStart h s =
     (let s1 = slog LevelDebug ''Starting HTTP echo server...'' s
      in s1\<lparr>httpServing := httpServing s1 @ [httpListener h]\<rparr>)"

text \<open>What the goroutine of \<open>Start\<close> does with the error that \<open>Serve\<close> returns.\<close>

definition httpServed :: "goerror option \<Rightarrow> 'l os \<Rightarrow> 'l os" where
  "httpServed res s = (case res of
       None \<Rightarrow> s
     | Some err \<Rightarrow> if \<not> errors_Is err ErrServerClosed then slog LevelError ''HTTP echo server error'' s else s)"

text \<open>\<open>Shutdown\<close> closes the listeners that \<open>Serve\<close> was called on.\<close>

definition httpStop :: "'l oslib \<Rightarrow> 'l httpServer \<Rightarrow> 'l os \<Rightarrow> 'l os" where
  "httpStop lib h s =
     (let s1 = slog LevelDebug ''Stopping HTTP echo server...'' s;
          err = httpShutdown lib (ostick s1) defaultHTTPTimeout;
          s2 = (osticked s1)\<lparr>closed := closed s1 @ (if httpListener h \<in> set (httpServing s1) then [httpListener h] else [])\<rparr>;
          s3 = (if err \<noteq> None then slog LevelError ''Error shutting down HTTP server'' s2 else s2)
      in slog LevelDebug ''HTTP echo server stopped'' s3)"

definition httpAddress :: "'l oslib \<Rightarrow> 'l httpServer \<Rightarrow> string" where
  "httpAddress lib h = addrString lib (httpListener h)"

definition httpURL :: "'l httpServer \<Rightarrow> string" where
  "httpURL h = ''http://'' @ JoinHostPort host (Itoa (httpPort h))"

section \<open>Both servers\<close>

record 'l server =
  tcp :: "'l tcpServer"
  http :: "'l httpServer"

definition NewServer :: "'l oslib \<Rightarrow> 'l os \<Rightarrow> 'l server result \<times> 'l os" where
  "NewServer lib s = (case NewTCPServer lib s of
       (Inl err, s1) \<Rightarrow> (Inl err, s1)
     | (Inr t, s1) \<Rightarrow>
         (case NewHTTPServer lib s1 of
            (Inl err, s2) \<Rightarrow> (Inl err, snd (snd (tcpStop lib t s2)))
          | (Inr h, s2) \<Rightarrow> (Inr \<lparr>tcp = t, http = h\<rparr>, s2)))"

definition serverStart :: "'l server \<Rightarrow> 'l os \<Rightarrow> 'l server \<times> 'l os" where
  "serverStart srv s =
     (let s1 = slog LevelDebug ''Starting echo servers...'' s;
          (t, s2) = tcpStart (tcp srv) s1;
          s3 = httpStart (http srv) s2
      in (srv\<lparr>tcp := t\<rparr>, slog LevelDebug ''Echo servers started'' s3))"

definition serverStop :: "'l oslib \<Rightarrow> 'l server \<Rightarrow> 'l os \<Rightarrow> goerror option \<times> 'l server \<times> 'l os" where
  "serverStop lib srv s =
     (let s1 = slog LevelDebug ''Stopping echo servers...'' s in
      case tcpStop lib (tcp srv) s1 of
        (Some p, t, s2) \<Rightarrow> (Some p, srv\<lparr>tcp := t\<rparr>, s2)
      | (None, t, s2) \<Rightarrow>
          (None, srv\<lparr>tcp := t\<rparr>, slog LevelDebug ''Echo servers stopped'' (httpStop lib (http srv) s2)))"

definition serverAddress :: "'l oslib \<Rightarrow> 'l server \<Rightarrow> string" where
  "serverAddress lib srv = tcpAddress lib (tcp srv)"

definition serverPort :: "'l server \<Rightarrow> int" where
  "serverPort srv = tcpPort (tcp srv)"

definition HTTPPort :: "'l server \<Rightarrow> int" where
  "HTTPPort srv = httpPort (http srv)"

definition HTTPURL :: "'l server \<Rightarrow> string" where
  "HTTPURL srv = httpURL (http srv)"

definition serverHost :: "'l server \<Rightarrow> string" where
  "serverHost srv = host"

definition EnvTCPEchoHost :: string where
  "EnvTCPEchoHost = ''TCP_ECHO_HOST''"

definition EnvTCPEchoPort :: string where
  "EnvTCPEchoPort = ''TCP_ECHO_PORT''"

definition EnvHTTPEchoHost :: string where
  "EnvHTTPEchoHost = ''HTTP_ECHO_HOST''"

definition EnvHTTPEchoPort :: string where
  "EnvHTTPEchoPort = ''HTTP_ECHO_PORT''"

definition EnvHTTPEchoURL :: string where
  "EnvHTTPEchoURL = ''HTTP_ECHO_URL''"

definition setenv :: "'l oslib \<Rightarrow> string \<Rightarrow> string \<Rightarrow> 'l os \<Rightarrow> goerror option \<times> 'l os" where
  "setenv lib key val s = (case osSetenv lib (ostick s) key val of
       Some err \<Rightarrow> (Some (Errorf (''failed to set '' @ key @ '' environment variable: '') err ''''), osticked s)
     | None \<Rightarrow> (None, (osticked s)\<lparr>environ := (environ s)(key \<mapsto> val)\<rparr>))"

text \<open>\<open>if err := f(); err != nil { return err }\<close> and what follows it.\<close>

definition orReturn ::
    "('s \<Rightarrow> goerror option \<times> 's) \<Rightarrow> ('s \<Rightarrow> goerror option \<times> 's) \<Rightarrow> 's \<Rightarrow> goerror option \<times> 's" where
  "orReturn f g s = (case f s of (Some err, s1) \<Rightarrow> (Some err, s1) | (None, s1) \<Rightarrow> g s1)"

definition Setenv :: "'l oslib \<Rightarrow> 'l server \<Rightarrow> 'l os \<Rightarrow> goerror option \<times> 'l os" where
  "Setenv lib srv =
     orReturn (setenv lib EnvTCPEchoHost host)
    (orReturn (setenv lib EnvTCPEchoPort (Itoa (tcpPort (tcp srv))))
    (orReturn (setenv lib EnvHTTPEchoHost host)
    (orReturn (setenv lib EnvHTTPEchoPort (Itoa (httpPort (http srv))))
    (setenv lib EnvHTTPEchoURL (''http://'' @ JoinHostPort host (Itoa (httpPort (http srv))))))))"

text \<open>\<open>Setup\<close>: an error value stands for the panic with it.\<close>

definition Setup :: "'l oslib \<Rightarrow> 'l os \<Rightarrow> 'l server result \<times> 'l os" where
  "Setup lib s =
     (let s0 = slog LevelDebug ''Setting up echo server for tests'' s in
      case NewServer lib s0 of
        (Inl err, s1) \<Rightarrow> (Inl (Errorf ''failed to start embedded echo server: '' err ''''), s1)
      | (Inr srv, s1) \<Rightarrow>
          (case Setenv lib srv s1 of
             (Some err, s2) \<Rightarrow> (Inl (Errorf ''failed to set up embedded echo server environment: '' err ''''), s2)
           | (None, s2) \<Rightarrow> (let (srv', s3) = serverStart srv s2 in (Inr srv', s3))))"

section \<open>Listeners\<close>

text \<open>Every listener opened on the way from \<open>s\<close> to \<open>t\<close> was also closed on the way.\<close>

definition nothingLeft :: "'l os \<Rightarrow> 'l os \<Rightarrow> bool" where
  "nothingLeft s t \<longleftrightarrow> (\<exists>ls. opened t = opened s @ ls \<and> mset (closed t) = mset (closed s) + mset ls)"

lemma slog_simps [simp]:
  "opened (slog lv m s) = opened s" "closed (slog lv m s) = closed s" "accepting (slog lv m s) = accepting s"
  "httpServing (slog lv m s) = httpServing s" "environ (slog lv m s) = environ s" "ostick (slog lv m s) = ostick s"
  by (simp_all add: slog_def)

lemma osticked_simps [simp]:
  "opened (osticked s) = opened s" "closed (osticked s) = closed s" "accepting (osticked s) = accepting s"
  "httpServing (osticked s) = httpServing s" "environ (osticked s) = environ s" "ostick (osticked s) = Suc (ostick s)"
  by (simp_all add: osticked_def)

definition unstarted :: "'l os \<Rightarrow> 'l os \<Rightarrow> bool" where
  "unstarted s t \<longleftrightarrow> accepting t = accepting s \<and> httpServing t = httpServing s \<and> environ t = environ s"

lemma NewTCPServer_spec:
  "case NewTCPServer lib s of
     (Inl err, t) \<Rightarrow> nothingLeft s t \<and> unstarted s t
   | (Inr srv, t) \<Rightarrow> \<not> tcpDone srv \<and> tcpWg srv = 0 \<and> tcpAddrPort lib (tcpListener srv) = Some (tcpPort srv) \<and>
       opened t = opened s @ [tcpListener srv] \<and> closed t = closed s \<and> unstarted s t"
  by (auto simp: NewTCPServer_def listen_def closeListener_def nothingLeft_def unstarted_def split: sum.split option.split)

lemma NewHTTPServer_spec:
  "case NewHTTPServer lib s of
     (Inl err, t) \<Rightarrow> nothingLeft s t \<and> unstarted s t
   | (Inr srv, t) \<Rightarrow> tcpAddrPort lib (httpListener srv) = Some (httpPort srv) \<and>
       opened t = opened s @ [httpListener srv] \<and> closed t = closed s \<and> unstarted s t"
  by (auto simp: NewHTTPServer_def listen_def closeListener_def nothingLeft_def unstarted_def split: sum.split option.split)

lemma tcpStop_spec:
  "\<not> tcpDone t \<Longrightarrow> tcpStop lib t s = (None, t\<lparr>tcpDone := True, tcpWg := 0\<rparr>, snd (snd (tcpStop lib t s))) \<and>
   opened (snd (snd (tcpStop lib t s))) = opened s \<and> closed (snd (snd (tcpStop lib t s))) = closed s @ [tcpListener t] \<and>
   unstarted s (snd (snd (tcpStop lib t s)))"
  by (simp add: tcpStop_def closeListener_def Let_def unstarted_def)

lemma nothingLeft_close:
  "opened s1 = opened s @ [l] \<Longrightarrow> closed s1 = closed s \<Longrightarrow> nothingLeft s1 s2 \<Longrightarrow>
   opened t = opened s2 \<Longrightarrow> closed t = closed s2 @ [l] \<Longrightarrow> nothingLeft s t"
  by (auto simp: nothingLeft_def)

lemma unstarted_trans: "unstarted s t \<Longrightarrow> unstarted t u \<Longrightarrow> unstarted s u"
  by (simp add: unstarted_def)

lemma NewServer_spec:
  "case NewServer lib s of
     (Inl err, t) \<Rightarrow> nothingLeft s t \<and> unstarted s t
   | (Inr srv, t) \<Rightarrow> \<not> tcpDone (tcp srv) \<and> tcpAddrPort lib (tcpListener (tcp srv)) = Some (serverPort srv) \<and>
       tcpAddrPort lib (httpListener (http srv)) = Some (HTTPPort srv) \<and>
       opened t = opened s @ [tcpListener (tcp srv), httpListener (http srv)] \<and> closed t = closed s \<and> unstarted s t"
proof -
  obtain r s1 where r: "NewTCPServer lib s = (r, s1)" by fastforce
  show ?thesis
  proof (cases r)
    case (Inl err)
    then show ?thesis using NewTCPServer_spec [where lib = lib and s = s] r by (simp add: NewServer_def)
  next
    case (Inr t)
    obtain q s2 where q: "NewHTTPServer lib s1 = (q, s2)" by fastforce
    have T: "\<not> tcpDone t" "tcpAddrPort lib (tcpListener t) = Some (tcpPort t)" "opened s1 = opened s @ [tcpListener t]"
      "closed s1 = closed s" "unstarted s s1"
      using NewTCPServer_spec [where lib = lib and s = s] r Inr by simp_all
    show ?thesis
    proof (cases q)
      case (Inl err)
      then have "nothingLeft s1 s2" "unstarted s1 s2" using NewHTTPServer_spec [where lib = lib and s = s1] q by simp_all
      with T Inl r Inr q tcpStop_spec [where t = t and lib = lib and s = s2] show ?thesis
        by (auto simp: NewServer_def intro: nothingLeft_close unstarted_trans)
    next
      case H: (Inr h)
      then show ?thesis
        using T NewHTTPServer_spec [where lib = lib and s = s1] r Inr q
        by (auto simp: NewServer_def serverPort_def HTTPPort_def intro: unstarted_trans)
    qed
  qed
qed

section \<open>The environment\<close>

text \<open>What the documentation promises to commands run beside the servers: the value of every accessor.\<close>

definition exports :: "'l server \<Rightarrow> (string \<times> string) list" where
  "exports srv = [(EnvTCPEchoHost, serverHost srv), (EnvTCPEchoPort, Itoa (serverPort srv)),
     (EnvHTTPEchoHost, serverHost srv), (EnvHTTPEchoPort, Itoa (HTTPPort srv)), (EnvHTTPEchoURL, HTTPURL srv)]"

fun setAll :: "'l oslib \<Rightarrow> (string \<times> string) list \<Rightarrow> 'l os \<Rightarrow> goerror option \<times> 'l os" where
  "setAll lib [] s = (None, s)"
| "setAll lib ((k, v) # kvs) s = orReturn (setenv lib k v) (setAll lib kvs) s"

lemma Setenv_setAll: "Setenv lib srv s = setAll lib (exports srv) s"
  by (simp add: Setenv_def exports_def orReturn_def serverHost_def serverPort_def HTTPPort_def HTTPURL_def httpURL_def
      split: prod.split option.split)

lemma setAll_spec:
  "distinct (map fst kvs) \<Longrightarrow> setAll lib kvs s = (r, t) \<Longrightarrow>
   \<exists>n \<le> length kvs. environ t = environ s ++ map_of (take n kvs) \<and> (r = None \<longleftrightarrow> n = length kvs) \<and>
     opened t = opened s \<and> closed t = closed s \<and> accepting t = accepting s \<and> httpServing t = httpServing s \<and>
     (\<forall>err. r = Some err \<longrightarrow> (\<exists>e. err = Errorf (''failed to set '' @ fst (kvs ! n) @ '' environment variable: '') e ''''))"
proof (induction kvs arbitrary: s)
  case (Cons kv kvs)
  obtain k v where kv: "kv = (k, v)" by (cases kv)
  show ?case
  proof (cases "osSetenv lib (ostick s) k v")
    case (Some e)
    then show ?thesis using Cons.prems kv by (intro exI [of _ 0]) (auto simp: orReturn_def setenv_def)
  next
    case None
    let ?s1 = "(osticked s)\<lparr>environ := (environ s)(k \<mapsto> v)\<rparr>"
    have eq: "setAll lib kvs ?s1 = (r, t)" using Cons.prems(2) kv None by (simp add: orReturn_def setenv_def)
    have "distinct (map fst kvs)" using Cons.prems(1) by simp
    from Cons.IH [OF this eq] obtain n where n: "n \<le> length kvs" "environ t = environ ?s1 ++ map_of (take n kvs)"
      "r = None \<longleftrightarrow> n = length kvs" "opened t = opened ?s1" "closed t = closed ?s1" "accepting t = accepting ?s1"
      "httpServing t = httpServing ?s1"
      "\<forall>err. r = Some err \<longrightarrow> (\<exists>e. err = Errorf (''failed to set '' @ fst (kvs ! n) @ '' environment variable: '') e '''')"
      by blast
    have "k \<notin> dom (map_of (take n kvs))"
      using Cons.prems(1) kv by (auto simp: dom_map_of_conv_image_fst dest!: in_set_takeD)
    then have e: "environ t = environ s ++ map_of (take (Suc n) (kv # kvs))"
      using n(2) kv by (simp add: map_add_upd_left map_add_upd)
    show ?thesis
    proof (rule exI [of _ "Suc n"], intro conjI)
      show "environ t = environ s ++ map_of (take (Suc n) (kv # kvs))" by (rule e)
    qed (use n in auto)
  qed
qed simp

section \<open>Starting and stopping\<close>

lemma serverStart_spec:
  assumes "serverStart srv s = (srv', t)"
  shows "http srv' = http srv" "tcpDone (tcp srv') = tcpDone (tcp srv)" "tcpListener (tcp srv') = tcpListener (tcp srv)"
    "opened t = opened s" "closed t = closed s" "environ t = environ s" "exports srv' = exports srv"
    "accepting t = accepting s @ [tcpListener (tcp srv)]" "httpServing t = httpServing s @ [httpListener (http srv)]"
  using assms by (auto simp: serverStart_def tcpStart_def httpStart_def Let_def exports_def serverHost_def serverPort_def
      HTTPPort_def HTTPURL_def)

lemma serverStop_spec:
  assumes "serverStop lib srv s = (p, srv', t)" "\<not> tcpDone (tcp srv)" "httpListener (http srv) \<in> set (httpServing s)"
  shows "p = None" "tcpDone (tcp srv')" "opened t = opened s" "environ t = environ s"
    "closed t = closed s @ [tcpListener (tcp srv), httpListener (http srv)]"
  using assms by (auto simp: serverStop_def tcpStop_def closeListener_def httpStop_def Let_def)

lemma serverStop_twice: "tcpDone (tcp srv) \<Longrightarrow> fst (serverStop lib srv s) = Some (Panic ''close of closed channel'')"
  by (simp add: serverStop_def tcpStop_def Let_def)

lemma exports_distinct: "distinct (map fst (exports srv))"
  by (simp add: exports_def EnvTCPEchoHost_def EnvTCPEchoPort_def EnvHTTPEchoHost_def EnvHTTPEchoPort_def EnvHTTPEchoURL_def)

lemma exports_length: "length (exports srv) = 5"
  by (simp add: exports_def)

lemma Setenv_frames:
  assumes "Setenv lib srv s = (r, t)"
  shows "opened t = opened s" "closed t = closed s" "accepting t = accepting s" "httpServing t = httpServing s"
  using setAll_spec [OF exports_distinct assms [unfolded Setenv_setAll]] by blast+

lemma Setenv_ok: "Setenv lib srv s = (None, t) \<Longrightarrow> environ t = environ s ++ map_of (exports srv)"
  unfolding Setenv_setAll by (drule setAll_spec [OF exports_distinct]) auto

lemma Setenv_err:
  assumes "Setenv lib srv s = (Some err, t)"
  shows "\<exists>n < 5. environ t = environ s ++ map_of (take n (exports srv)) \<and>
    (\<exists>e. err = Errorf (''failed to set '' @ fst (exports srv ! n) @ '' environment variable: '') e '''')"
proof -
  from setAll_spec [OF exports_distinct assms [unfolded Setenv_setAll]] obtain n where
    n: "n \<le> 5" "n \<noteq> 5" "environ t = environ s ++ map_of (take n (exports srv))"
      "\<exists>e. err = Errorf (''failed to set '' @ fst (exports srv ! n) @ '' environment variable: '') e ''''"
    unfolding exports_length by blast
  then have "n < 5" by simp
  with n(3,4) show ?thesis by blast
qed

lemma Setup_ok:
  assumes "Setup lib s = (Inr srv, t)"
  shows "environ t = environ s ++ map_of (exports srv)" "tcpListener (tcp srv) \<in> set (accepting t)"
    "httpListener (http srv) \<in> set (httpServing t)" "tcpAddrPort lib (tcpListener (tcp srv)) = Some (serverPort srv)"
    "tcpAddrPort lib (httpListener (http srv)) = Some (HTTPPort srv)"
proof -
  let ?s0 = "slog LevelDebug ''Setting up echo server for tests'' s"
  obtain srv0 s1 s2 where n: "NewServer lib ?s0 = (Inr srv0, s1)" "Setenv lib srv0 s1 = (None, s2)" "serverStart srv0 s2 = (srv, t)"
    using assms by (auto simp: Setup_def Let_def split: prod.splits sum.splits option.splits)
  have N: "tcpAddrPort lib (tcpListener (tcp srv0)) = Some (serverPort srv0)"
    "tcpAddrPort lib (httpListener (http srv0)) = Some (HTTPPort srv0)" "unstarted ?s0 s1"
    using NewServer_spec [where lib = lib and s = ?s0] n(1) by simp_all
  note S = serverStart_spec [OF n(3)]
  have "tcpPort (tcp srv) = tcpPort (tcp srv0)" using n(3) by (auto simp: serverStart_def tcpStart_def Let_def)
  then show "tcpAddrPort lib (tcpListener (tcp srv)) = Some (serverPort srv)"
    "tcpAddrPort lib (httpListener (http srv)) = Some (HTTPPort srv)"
    using N S by (simp_all add: serverPort_def HTTPPort_def)
  show "environ t = environ s ++ map_of (exports srv)" using N(3) S Setenv_ok [OF n(2)] by (simp add: unstarted_def)
  show "tcpListener (tcp srv) \<in> set (accepting t)" "httpListener (http srv) \<in> set (httpServing t)" using S by simp_all
qed

section \<open>Properties\<close>

text \<open>
  C32. The constructor of the echo servers succeeds or fails as a whole: it returns two servers, with the
  ports of their listeners and nothing started, or an error, with every listener that it opened on
  the way closed again.
\<close>

theorem echo_new_all_or_nothing:
  "case NewServer lib s of
     (Inl err, t) \<Rightarrow> nothingLeft s t \<and> unstarted s t
   | (Inr srv, t) \<Rightarrow> opened t = opened s @ [tcpListener (tcp srv), httpListener (http srv)] \<and> closed t = closed s \<and>
       tcpAddrPort lib (tcpListener (tcp srv)) = Some (serverPort srv) \<and>
       tcpAddrPort lib (httpListener (http srv)) = Some (HTTPPort srv) \<and> unstarted s t"
  using NewServer_spec [where lib = lib and s = s] by (simp split: prod.splits sum.splits)

text \<open>
  The environment tells where the servers are: when \<open>Setenv\<close> succeeds, the five variables have the
  values that the accessors of the server return and all others keep theirs; when it fails, the error
  names the variable that could not be set, and exactly those before it have been set.
\<close>

theorem echo_environment:
  "case Setenv lib srv s of
     (None, t) \<Rightarrow> environ t = environ s ++ map_of (exports srv)
   | (Some err, t) \<Rightarrow> \<exists>n < 5. environ t = environ s ++ map_of (take n (exports srv)) \<and>
       (\<exists>e. err = Errorf (''failed to set '' @ fst (exports srv ! n) @ '' environment variable: '') e '''')"
proof -
  obtain r t where r: "Setenv lib srv s = (r, t)" by fastforce
  show ?thesis using Setenv_ok [of lib srv s t] Setenv_err [of lib srv s _ t] r by (cases r) simp_all
qed

text \<open>
  \<open>Setup\<close> gives running servers or panics: either both servers are started, once, and the
  environment is exported; or nothing was started. When the environment could not be exported the
  panic leaves both listeners open.
\<close>

theorem echo_setup:
  "case Setup lib s of
     (Inr srv, t) \<Rightarrow> accepting t = accepting s @ [tcpListener (tcp srv)] \<and>
       httpServing t = httpServing s @ [httpListener (http srv)] \<and> environ t = environ s ++ map_of (exports srv) \<and>
       opened t = opened s @ [tcpListener (tcp srv), httpListener (http srv)] \<and> closed t = closed s
   | (Inl err, t) \<Rightarrow> accepting t = accepting s \<and> httpServing t = httpServing s \<and>
       (nothingLeft s t \<or> (\<exists>l1 l2. opened t = opened s @ [l1, l2] \<and> closed t = closed s))"
proof -
  let ?s0 = "slog LevelDebug ''Setting up echo server for tests'' s"
  obtain r s1 where r: "NewServer lib ?s0 = (r, s1)" by fastforce
  show ?thesis
  proof (cases r)
    case (Inl err)
    then show ?thesis
      using NewServer_spec [where lib = lib and s = ?s0] r by (simp add: Setup_def Let_def unstarted_def nothingLeft_def)
  next
    case (Inr srv)
    obtain q s2 where q: "Setenv lib srv s1 = (q, s2)" by fastforce
    obtain srv' s3 where st: "serverStart srv s2 = (srv', s3)" by fastforce
    have N: "opened s1 = opened s @ [tcpListener (tcp srv), httpListener (http srv)]" "closed s1 = closed s" "unstarted ?s0 s1"
      using NewServer_spec [where lib = lib and s = ?s0] r Inr by simp_all
    show ?thesis
      using Setenv_frames [OF q] N r Inr q st serverStart_spec [OF st] Setenv_ok [of lib srv s1 s2]
      by (cases q) (simp_all add: Setup_def Let_def unstarted_def)
  qed
qed

end
