(* ===== verification/WithEcho.thy ===== *)
theory WithEcho
  imports Echo
begin

text \<open>
  The command \<open>tools/with-echo/main.go\<close>: it starts the echo servers, exports where they are, runs a
  command with its arguments, forwards \<open>SIGINT\<close> and \<open>SIGTERM\<close> to it, stops the servers and exits
  with the status of the command. The child process is a parameter: what \<open>Start\<close> and \<open>Wait\<close> return.
  The goroutine that forwards signals is a step relation of its own.
\<close>

section \<open>Running a command\<close>

text \<open>The errors of \<open>Cmd.Wait\<close>: an \<open>*exec.ExitError\<close> with its \<open>ExitCode\<close>, or another error.\<close>

datatype waitError = ExitError int | WaitFailed goerror

record cmdlib =
  cmdStart :: "string \<Rightarrow> string list \<Rightarrow> (string \<rightharpoonup> string) \<Rightarrow> goerror option"
  cmdWait :: "string \<Rightarrow> string list \<Rightarrow> (string \<rightharpoonup> string) \<Rightarrow> waitError option"

text \<open>
  The process: the part that the servers see, the commands it started with the environment they got,
  on how many channels it is notified of signals, how many goroutines it started that forward them and
  how many of these it told to return (\<open>close(done)\<close>; nobody waits for them), what was written to the
  standard error, and whether it panicked.
\<close>

record 'l process =
  osState :: "'l os"
  commands :: "(string \<times> string list \<times> (string \<rightharpoonup> string)) list"
  notifying :: nat
  signalHandlers :: nat
  doneClosings :: nat
  stderr :: string
  panicked :: "goerror option"

definition printUsage :: "string list \<Rightarrow> 'l process \<Rightarrow> 'l process" where
  "printUsage osArgs p = p\<lparr>stderr := stderr p @ ''Usage: '' @ hd osArgs @ '' <command> [args...]'' @ [CHR 0x0A]\<rparr>"

definition NewCommandRunner :: "'l oslib \<Rightarrow> 'l os \<Rightarrow> 'l server result \<times> 'l os" where
  "NewCommandRunner lib s = (case NewServer lib s of
       (Inl err, s1) \<Rightarrow> (Inl (Errorf ''failed to create echo servers: '' err ''''), s1)
     | (Inr server, s1) \<Rightarrow>
         (let (server', s2) = serverStart server s1
          in case Setenv lib server' s2 of
               (Some err, s3) \<Rightarrow> (Inl err, s3)
             | (None, s3) \<Rightarrow> (Inr server', s3)))"

definition waitForCommand :: "waitError option \<Rightarrow> 'l os \<Rightarrow> int \<times> 'l os" where
  "waitForCommand err s = (case err of
       None \<Rightarrow> (0, s)
     | Some (ExitError code) \<Rightarrow> (code, s)
     | Some (WaitFailed e) \<Rightarrow> (1, slog LevelError ''Command execution error'' s))"

definition Run :: "cmdlib \<Rightarrow> string \<Rightarrow> string list \<Rightarrow> 'l process \<Rightarrow> int \<times> 'l process" where
  "Run cl cmdName cmdArgs p =
     (let env = environ (osState p);
          p0 = p\<lparr>notifying := Suc (notifying p)\<rparr> in
      case cmdStart cl cmdName cmdArgs env of
        Some err \<Rightarrow> (1, p0\<lparr>osState := slog LevelError ''Failed to start command'' (osState p0)\<rparr>)
      | None \<Rightarrow>
          (let p1 = p0\<lparr>commands := commands p0 @ [(cmdName, cmdArgs, env)], signalHandlers := Suc (signalHandlers p0)\<rparr>;
               (exitCode, s) = waitForCommand (cmdWait cl cmdName cmdArgs env) (osState p1)
           in (exitCode, p1\<lparr>osState := s, notifying := notifying p1 - 1, doneClosings := Suc (doneClosings p1)\<rparr>)))"

definition Shutdown :: "'l oslib \<Rightarrow> 'l server option \<Rightarrow> 'l process \<Rightarrow> 'l process" where
  "Shutdown lib srv p = (case srv of
       None \<Rightarrow> p
     | Some server \<Rightarrow>
         (let s1 = slog LevelInfo ''Shutting down embedded echo servers...'' (osState p);
              (panic, _, s2) = serverStop lib server s1
          in p\<lparr>osState := s2, panicked := panic\<rparr>))"

definition run :: "'l oslib \<Rightarrow> cmdlib \<Rightarrow> string list \<Rightarrow> 'l process \<Rightarrow> int \<times> 'l process" where
  "run lib cl osArgs p =
     (if length osArgs = 1 then (1, printUsage osArgs p)
      else case NewCommandRunner lib (osState p) of
        (Inl err, s1) \<Rightarrow> (1, p\<lparr>osState := slog LevelError ''Failed to initialize command runner'' s1\<rparr>)
      | (Inr runner, s1) \<Rightarrow>
          (let (code, p1) = Run cl (osArgs ! 1) (drop 2 osArgs) (p\<lparr>osState := s1\<rparr>)
           in (code, Shutdown lib (Some runner) p1)))"

text \<open>\<open>main\<close>: the operating system keeps the low eight bits of the status.\<close>

definition main :: "'l oslib \<Rightarrow> cmdlib \<Rightarrow> string list \<Rightarrow> 'l process \<Rightarrow> int \<times> 'l process" where
  "main lib cl osArgs p = (let (code, q) = run lib cl osArgs p in (code mod 256, q))"

section \<open>Forwarding signals\<close>

text \<open>
  \<open>sigChan\<close> holds at most one signal; the runtime drops a signal that finds it full. \<open>signalCalls\<close> are
  the calls of \<open>cmd.Process.Signal\<close> with what they returned, \<open>debugs\<close> the signals and errors that were
  logged. The end of \<open>Run\<close> first stops the notifications (\<open>stopped\<close>), then closes \<open>done\<close> (\<open>closing\<close>);
  \<open>returned\<close> is the end of the goroutine. \<open>hasProcess\<close> says that \<open>cmd.Process\<close> is not nil, as it is
  from the start, since the goroutine runs only after \<open>cmd.Start\<close> has succeeded.
\<close>

definition SIGINT :: nat where "SIGINT = 2"

definition SIGTERM :: nat where "SIGTERM = 15"

record signals =
  arrived :: "nat list"
  sigChan :: "nat list"
  hasProcess :: bool
  signalCalls :: "(nat \<times> goerror option) list"
  debugs :: "(nat \<times> goerror) list"
  stopped :: bool
  closing :: bool
  returned :: bool

definition noSignals :: signals where
  "noSignals = \<lparr>arrived = [], sigChan = [], hasProcess = True, signalCalls = [], debugs = [],
     stopped = False, closing = False, returned = False\<rparr>"

text \<open>The outside: a signal arrives; the command ends and \<open>Run\<close> goes on.\<close>

inductive signalled :: "signals \<Rightarrow> signals \<Rightarrow> bool" where
  arrive: "s = SIGINT \<or> s = SIGTERM \<Longrightarrow> \<not> stopped g \<Longrightarrow>
    signalled g (g\<lparr>arrived := arrived g @ [s], sigChan := (if sigChan g = [] then [s] else sigChan g)\<rparr>)"
| signal_Stop: "\<not> stopped g \<Longrightarrow> signalled g (g\<lparr>stopped := True\<rparr>)"
| close_done: "stopped g \<Longrightarrow> \<not> closing g \<Longrightarrow> signalled g (g\<lparr>closing := True\<rparr>)"

text \<open>
  \<open>handleSignals\<close>: one round of its loop; the \<open>select\<close> takes any case that is ready. The first case passes
  the signal on; an error of \<open>Signal\<close> (the process may be gone) is only logged.
\<close>

definition forwardSignal :: "nat \<Rightarrow> goerror option \<Rightarrow> signals \<Rightarrow> signals" where
  "forwardSignal sig err g =
     (if hasProcess g then
        (let g1 = g\<lparr>signalCalls := signalCalls g @ [(sig, err)]\<rparr>
         in case err of Some e \<Rightarrow> g1\<lparr>debugs := debugs g1 @ [(sig, e)]\<rparr> | None \<Rightarrow> g1)
      else g)"

inductive handleSignals :: "signals \<Rightarrow> signals \<Rightarrow> bool" where
  forward: "\<not> returned g \<Longrightarrow> sigChan g = sig # rest \<Longrightarrow>
    handleSignals g (forwardSignal sig err (g\<lparr>sigChan := rest\<rparr>))"
| finish: "\<not> returned g \<Longrightarrow> closing g \<Longrightarrow> handleSignals g (g\<lparr>returned := True\<rparr>)"

definition signalStep :: "signals \<Rightarrow> signals \<Rightarrow> bool" where
  "signalStep g g' \<longleftrightarrow> signalled g g' \<or> handleSignals g g'"

text \<open>The signals taken from the channel and the one in it; and the calls that failed.\<close>

definition takenUp :: "signals \<Rightarrow> nat list" where
  "takenUp g = map fst (signalCalls g) @ sigChan g"

definition failures :: "(nat \<times> goerror option) list \<Rightarrow> (nat \<times> goerror) list" where
  "failures calls = List.map_filter (\<lambda>(s, err). map_option (Pair s) err) calls"

lemma forwardSignal_fields [simp]:
  "arrived (forwardSignal sig err g) = arrived g" "sigChan (forwardSignal sig err g) = sigChan g"
  "hasProcess (forwardSignal sig err g) = hasProcess g" "stopped (forwardSignal sig err g) = stopped g"
  "closing (forwardSignal sig err g) = closing g" "returned (forwardSignal sig err g) = returned g"
  "hasProcess g \<Longrightarrow> signalCalls (forwardSignal sig err g) = signalCalls g @ [(sig, err)]"
  "hasProcess g \<Longrightarrow> debugs (forwardSignal sig err g) = debugs g @ failures [(sig, err)]"
  by (simp_all add: forwardSignal_def Let_def failures_def map_filter_simps split: option.split)

lemma failures_append [simp]: "failures (xs @ ys) = failures xs @ failures ys"
  by (simp add: failures_def map_filter_def)

definition signal_inv :: "signals \<Rightarrow> bool" where
  "signal_inv g \<longleftrightarrow> subseq (takenUp g) (arrived g) \<and> length (sigChan g) \<le> 1 \<and> hasProcess g \<and>
     set (arrived g) \<subseteq> {SIGINT, SIGTERM} \<and> (returned g \<longrightarrow> closing g) \<and> (closing g \<longrightarrow> stopped g) \<and>
     debugs g = failures (signalCalls g) \<and>
     (arrived g \<noteq> [] \<longrightarrow> takenUp g \<noteq> [] \<and> hd (takenUp g) = hd (arrived g))"

lemma subseq_snoc: "subseq xs ys \<Longrightarrow> subseq xs (ys @ [y])"
  by (rule subseq_rev_drop_many)

lemma signalled_inv: "signalled g g' \<Longrightarrow> signal_inv g \<Longrightarrow> signal_inv g'"
proof (induction rule: signalled.induct)
  case (arrive s g)
  show ?case
  proof (cases "sigChan g = []")
    case True
    then show ?thesis
      using arrive by (auto simp: signal_inv_def takenUp_def hd_append list_emb_append_mono subseq_snoc split: if_splits)
  next
    case False
    then show ?thesis using arrive by (auto simp: signal_inv_def takenUp_def subseq_snoc hd_append)
  qed
qed (auto simp: signal_inv_def takenUp_def)

lemma handleSignals_inv: "handleSignals g g' \<Longrightarrow> signal_inv g \<Longrightarrow> signal_inv g'"
  by (induction rule: handleSignals.induct) (simp_all add: signal_inv_def takenUp_def)

lemma signal_inv_step: "signal_inv g \<Longrightarrow> signalStep g g' \<Longrightarrow> signal_inv g'"
  unfolding signalStep_def using signalled_inv handleSignals_inv by blast

lemma signal_inv_none: "signal_inv noSignals"
  by (simp add: signal_inv_def noSignals_def takenUp_def failures_def map_filter_simps)

interpretation signal: transition_system "\<lambda>g. g = noSignals" signalStep signal_inv
  by unfold_locales (simp_all add: signal_inv_none signal_inv_step)

inductive_cases handleSignalsE: "handleSignals g g'"

lemma handleSignals_forwards:
  assumes "signal_inv g" "sigChan g \<noteq> []" "\<not> returned g"
  shows "\<exists>g'. handleSignals g g' \<and> signalCalls g' = signalCalls g @ [(hd (sigChan g), err)] \<and> sigChan g' = []"
proof -
  obtain sig where c: "sigChan g = [sig]" using assms(1,2) by (cases "sigChan g") (auto simp: signal_inv_def)
  then show ?thesis
    using forward [OF assms(3) c, of err] assms(1) by (intro exI conjI) (assumption, simp_all add: signal_inv_def)
qed

lemma handleSignals_only:
  assumes "signal_inv g" "handleSignals g g'"
  shows "sigChan g \<noteq> [] \<and> (\<exists>err. signalCalls g' = signalCalls g @ [(hd (sigChan g), err)]) \<and> returned g' = returned g \<or>
    closing g \<and> returned g' \<and> signalCalls g' = signalCalls g"
  using assms(2,1) by (cases rule: handleSignalsE) (auto simp: signal_inv_def)

text \<open>After the command has ended, the goroutine takes at most one signal more, then returns.\<close>

definition rounds :: "signals \<Rightarrow> nat" where
  "rounds g = (if returned g then 0 else Suc (length (sigChan g)))"

lemma handleSignals_rounds: "handleSignals g g' \<Longrightarrow> rounds g' < rounds g"
  by (induction rule: handleSignals.induct) (simp_all add: rounds_def)

lemma handleSignals_closing: "handleSignals g g' \<Longrightarrow> closing g' = closing g"
  by (induction rule: handleSignals.induct) simp_all

lemma handleSignals_run: "(handleSignals ^^ n) g g' \<Longrightarrow> n + rounds g' \<le> rounds g \<and> closing g' = closing g"
proof (induction n arbitrary: g')
  case (Suc n)
  then obtain u where "(handleSignals ^^ n) g u" "handleSignals u g'" by auto
  then show ?case using Suc.IH [of u] handleSignals_rounds [of u g'] handleSignals_closing [of u g'] by simp
qed simp

section \<open>The whole command\<close>

lemma Run_frames:
  "opened (osState (snd (Run cl n as p))) = opened (osState p)" "closed (osState (snd (Run cl n as p))) = closed (osState p)"
  "httpServing (osState (snd (Run cl n as p))) = httpServing (osState p)"
  "panicked (snd (Run cl n as p)) = panicked p"
  by (auto simp: Run_def Let_def waitForCommand_def split: option.split waitError.split)

text \<open>The status the documentation promises: that of the command, or 1 when it could not be run.\<close>

definition statusOf :: "cmdlib \<Rightarrow> string \<Rightarrow> string list \<Rightarrow> (string \<rightharpoonup> string) \<Rightarrow> int" where
  "statusOf cl n as env = (if cmdStart cl n as env \<noteq> None then 1
     else case cmdWait cl n as env of None \<Rightarrow> 0 | Some (ExitError c) \<Rightarrow> c | Some (WaitFailed e) \<Rightarrow> 1)"

lemma Run_result:
  "fst (Run cl n as p) = statusOf cl n as (environ (osState p))"
  "commands (snd (Run cl n as p)) =
     commands p @ (if cmdStart cl n as (environ (osState p)) = None then [(n, as, environ (osState p))] else [])"
  by (auto simp: Run_def Let_def waitForCommand_def statusOf_def split: option.split waitError.split)

text \<open>
  \<open>Run\<close> leaves no goroutine behind that it has not told to return; and a command that could not be
  started leaves the notifications on.
\<close>

definition signalsLeft :: "bool \<Rightarrow> 'l process \<Rightarrow> 'l process \<Rightarrow> bool" where
  "signalsLeft started p q \<longleftrightarrow>
     signalHandlers q = signalHandlers p + of_bool started \<and> doneClosings q = doneClosings p + of_bool started \<and>
     notifying q = notifying p + of_bool (\<not> started)"

lemma Run_signals: "signalsLeft (cmdStart cl n as (environ (osState p)) = None) p (snd (Run cl n as p))"
  by (auto simp: signalsLeft_def Run_def Let_def waitForCommand_def split: option.split waitError.split)

lemma NewCommandRunner_ok:
  assumes "NewCommandRunner lib s = (Inr srv, t)"
  shows "\<not> tcpDone (tcp srv)" "httpListener (http srv) \<in> set (httpServing t)" "closed t = closed s"
    "opened t = opened s @ [tcpListener (tcp srv), httpListener (http srv)]" "environ t = environ s ++ map_of (exports srv)"
proof -
  obtain srv0 s1 s2 where n: "NewServer lib s = (Inr srv0, s1)" and st: "serverStart srv0 s1 = (srv, s2)"
    and e: "Setenv lib srv s2 = (None, t)"
    using assms by (auto simp: NewCommandRunner_def Let_def split: prod.splits sum.splits option.splits)
  note N = NewServer_spec [where lib = lib and s = s, unfolded n, simplified]
  note T = serverStart_spec [OF st] Setenv_frames [OF e] Setenv_ok [OF e]
  show "\<not> tcpDone (tcp srv)" "httpListener (http srv) \<in> set (httpServing t)" "closed t = closed s"
    "opened t = opened s @ [tcpListener (tcp srv), httpListener (http srv)]" "environ t = environ s ++ map_of (exports srv)"
    using N T by (simp_all add: unstarted_def)
qed

text \<open>
  When the environment cannot be exported, the error of \<open>NewCommandRunner\<close> leaves both servers running:
  their goroutines are started and no listener is closed.
\<close>

lemma runner_error_leaves_servers:
  assumes "NewServer lib s = (Inr srv, s1)" "serverStart srv s1 = (srv', s2)" "Setenv lib srv' s2 = (Some err, t)"
  shows "NewCommandRunner lib s = (Inl err, t) \<and> accepting t = accepting s @ [tcpListener (tcp srv)] \<and> closed t = closed s"
  using assms NewServer_spec [where lib = lib and s = s] serverStart_spec [OF assms(2)] Setenv_frames [OF assms(3)]
  by (simp add: NewCommandRunner_def unstarted_def)

lemma run_created:
  assumes "NewCommandRunner lib (osState p) = (Inr srv, s)" "length as \<noteq> 1" "run lib cl as p = (code, q)"
  shows "code = statusOf cl (as ! 1) (drop 2 as) (environ (osState p) ++ map_of (exports srv))"
    "commands q = commands p @ (if cmdStart cl (as ! 1) (drop 2 as) (environ (osState p) ++ map_of (exports srv)) = None
       then [(as ! 1, drop 2 as, environ (osState p) ++ map_of (exports srv))] else [])"
    "nothingLeft (osState p) (osState q)" "panicked q = None"
    "signalsLeft (cmdStart cl (as ! 1) (drop 2 as) (environ (osState p) ++ map_of (exports srv)) = None) p q"
proof -
  note N = NewCommandRunner_ok [OF assms(1)]
  let ?p1 = "p\<lparr>osState := s\<rparr>"
  let ?r = "snd (Run cl (as ! 1) (drop 2 as) ?p1)"
  let ?s1 = "slog LevelInfo ''Shutting down embedded echo servers...'' (osState ?r)"
  obtain panic srv' s2 where st: "serverStop lib srv ?s1 = (panic, srv', s2)" by (cases rule: prod_cases3)
  have q: "code = fst (Run cl (as ! 1) (drop 2 as) ?p1)" "q = ?r\<lparr>osState := s2, panicked := panic\<rparr>"
    using assms st by (simp_all add: run_def Shutdown_def Let_def case_prod_unfold)
  have S: "panic = None" "opened s2 = opened ?s1"
    "closed s2 = closed ?s1 @ [tcpListener (tcp srv), httpListener (http srv)]"
    using serverStop_spec [OF st] N(1,2) by (simp_all add: Run_frames)
  show "code = statusOf cl (as ! 1) (drop 2 as) (environ (osState p) ++ map_of (exports srv))"
    "commands q = commands p @ (if cmdStart cl (as ! 1) (drop 2 as) (environ (osState p) ++ map_of (exports srv)) = None
       then [(as ! 1, drop 2 as, environ (osState p) ++ map_of (exports srv))] else [])"
    using N(5) by (simp_all add: q Run_result)
  show "nothingLeft (osState p) (osState q)" "panicked q = None"
    using S N(3,4) by (simp_all add: q Run_frames nothingLeft_def)
  show "signalsLeft (cmdStart cl (as ! 1) (drop 2 as) (environ (osState p) ++ map_of (exports srv)) = None) p q"
    using Run_signals [of cl "as ! 1" "drop 2 as" ?p1] N(5) by (simp add: q signalsLeft_def)
qed

section \<open>Properties\<close>

text \<open>
  C35. What \<open>with-echo\<close> does: without a command it prints its usage and exits with 1. Otherwise, once the
  servers are up, the command is run at most once, with its arguments and with an environment that
  says where the servers are; the exit status is that of the command (its low eight bits), or 1 when it
  could not be started or waited for; and on every such path the servers are stopped before the exit: all
  listeners are closed, without a panic. A goroutine that forwards signals is started exactly when the
  command is, and is told to return; the notifications of signals are off again unless the command could
  not be started.
\<close>

theorem with_echo_run:
  "case main lib cl as p of (code, q) \<Rightarrow>
     if length as = 1 then code = 1 \<and> osState q = osState p \<and> commands q = commands p
     else case NewCommandRunner lib (osState p) of
       (Inl err, s) \<Rightarrow> code = 1 \<and> commands q = commands p
     | (Inr srv, s) \<Rightarrow>
         (let env = environ (osState p) ++ map_of (exports srv); n = as ! 1; rest = drop 2 as in
          code = statusOf cl n rest env mod 256 \<and>
          commands q = commands p @ (if cmdStart cl n rest env = None then [(n, rest, env)] else []) \<and>
          nothingLeft (osState p) (osState q) \<and> panicked q = None \<and>
          signalsLeft (cmdStart cl n rest env = None) p q)"
proof -
  obtain code q where r: "run lib cl as p = (code, q)" by fastforce
  show ?thesis
  proof (cases "length as = 1")
    case True
    then show ?thesis by (simp add: main_def run_def printUsage_def)
  next
    case False
    obtain m s where m: "NewCommandRunner lib (osState p) = (m, s)" by fastforce
    show ?thesis
    proof (cases m)
      case (Inl err)
      then show ?thesis using False m by (simp add: main_def run_def)
    next
      case (Inr srv)
      then show ?thesis
        using False run_created [OF m [unfolded Inr] False r] by (simp add: main_def r m Let_def)
    qed
  qed
qed

text \<open>
  C36. Signals are forwarded in order: the signals passed to the command, then the one that waits in the
  channel, are a subsequence of those that arrived, all of them \<open>SIGINT\<close> or \<open>SIGTERM\<close>, and begin with the
  first that arrived. While a signal waits and \<open>handleSignals\<close> has not returned, it can take it and
  pass it on, whatever \<open>Process.Signal\<close> returns; it does nothing else until \<open>done\<close> is closed, and exactly
  the errors of \<open>Process.Signal\<close> are logged. Once \<open>done\<close> is closed the goroutine returns after at
  most one signal more.
\<close>

theorem signals_forwarded:
  assumes "reach (\<lambda>g. g = noSignals) signalStep g"
  shows "subseq (map fst (signalCalls g) @ sigChan g) (arrived g) \<and> set (arrived g) \<subseteq> {SIGINT, SIGTERM} \<and>
    (arrived g \<noteq> [] \<longrightarrow> (\<exists>rest. map fst (signalCalls g) @ sigChan g = hd (arrived g) # rest)) \<and>
    (sigChan g \<noteq> [] \<and> \<not> returned g \<longrightarrow>
      (\<exists>g'. handleSignals g g' \<and> signalCalls g' = signalCalls g @ [(hd (sigChan g), err)] \<and> sigChan g' = [])) \<and>
    (handleSignals g g' \<longrightarrow>
      sigChan g \<noteq> [] \<and> (\<exists>err. signalCalls g' = signalCalls g @ [(hd (sigChan g), err)]) \<and> returned g' = returned g \<or>
      closing g \<and> returned g' \<and> signalCalls g' = signalCalls g) \<and>
    debugs g = failures (signalCalls g) \<and>
    (closing g \<and> (handleSignals ^^ n) g g' \<longrightarrow> n \<le> 2 \<and> ((\<exists>g''. handleSignals g' g'') \<noteq> returned g'))"
proof -
  have inv: "signal_inv g" by (rule signal.reach_inv [OF assms])
  have "rounds g \<le> 2" using inv by (simp add: rounds_def signal_inv_def)
  moreover have "closing g' \<Longrightarrow> (\<exists>g''. handleSignals g' g'') \<noteq> returned g'"
    using finish [of g'] by (auto elim: handleSignals.cases)
  moreover have "\<exists>rest. takenUp g = hd (arrived g) # rest" if "arrived g \<noteq> []"
    using that inv by (cases "takenUp g") (auto simp: signal_inv_def)
  ultimately show ?thesis
    using inv handleSignals_run [of n g g'] handleSignals_forwards [OF inv] handleSignals_only [OF inv, of g']
    unfolding takenUp_def by (auto simp: signal_inv_def takenUp_def)
qed

theorem signals_forwarded_witness:
  "\<exists>g. reach (\<lambda>g. g = noSignals) signalStep g \<and> arrived g = [SIGTERM, SIGINT] \<and>
     (\<exists>g'. handleSignals g g' \<and> signalCalls g' = [(SIGTERM, None)] \<and> sigChan g' = [])"
proof -
  let ?g1 = "noSignals\<lparr>arrived := [SIGTERM], sigChan := [SIGTERM]\<rparr>"
  let ?g2 = "noSignals\<lparr>arrived := [SIGTERM, SIGINT], sigChan := [SIGTERM]\<rparr>"
  have 1: "signalStep noSignals ?g1" using arrive [of SIGTERM noSignals] by (simp add: signalStep_def noSignals_def)
  have 2: "signalStep ?g1 ?g2" using arrive [of SIGINT ?g1] by (simp add: signalStep_def noSignals_def)
  have "reach (\<lambda>g. g = noSignals) signalStep noSignals" by (rule reach_init) (rule refl)
  then have r: "reach (\<lambda>g. g = noSignals) signalStep ?g2"
    by (rule reach_step [OF reach_step]) (rule 1 2)+
  from signals_forwarded [OF r, of None ?g2 0] show ?thesis
    by (intro exI [of _ ?g2]) (use r in \<open>simp add: noSignals_def\<close>)
qed

text \<open>
  A signal that waits in the channel when \<open>done\<close> is closed may be lost: the \<open>select\<close> may choose to return.
\<close>

lemma last_signal_lost:
  "\<exists>g. reach (\<lambda>g. g = noSignals) signalStep g \<and> returned g \<and> arrived g = [SIGINT] \<and> signalCalls g = []"
proof -
  let ?g1 = "noSignals\<lparr>arrived := [SIGINT], sigChan := [SIGINT]\<rparr>"
  let ?g2 = "?g1\<lparr>stopped := True\<rparr>"
  let ?g3 = "?g2\<lparr>closing := True\<rparr>"
  let ?g4 = "?g3\<lparr>returned := True\<rparr>"
  have 1: "signalStep noSignals ?g1" using arrive [of SIGINT noSignals] by (simp add: signalStep_def noSignals_def)
  have 2: "signalStep ?g1 ?g2" using signal_Stop [of ?g1] by (simp add: signalStep_def noSignals_def)
  have 3: "signalStep ?g2 ?g3" using close_done [of ?g2] by (simp add: signalStep_def noSignals_def)
  have 4: "signalStep ?g3 ?g4" using finish [of ?g3] by (simp add: signalStep_def noSignals_def)
  have "reach (\<lambda>g. g = noSignals) signalStep noSignals" by (rule reach_init) (rule refl)
  then have "reach (\<lambda>g. g = noSignals) signalStep ?g4"
    by (rule reach_step [OF reach_step [OF reach_step [OF reach_step]]]) (rule 1 2 3 4)+
  then show ?thesis by (intro exI [of _ ?g4]) (simp add: noSignals_def)
qed

end
