(* ===== verification/EchoHTTP.thy ===== *)
theory EchoHTTP
  imports EchoTCP "HOL-Library.Multiset"
begin

text \<open>
  The HTTP echo handler of \<open>internal/echo/server_http.go\<close> and what it uses of \<open>encoding/json\<close> and
  \<open>net/http\<close>: a \<open>GET\<close> request is described in a JSON object, any other method is refused. The
  quoting of text outside ASCII (\<open>uq\<close>) is a parameter; a reader for quoted strings shows that the
  quoting loses nothing.
\<close>

section \<open>JSON\<close>

datatype json = JString string | JObject "(string \<times> json) list"

definition json_char :: "char \<Rightarrow> string" where
  "json_char c = (let n = of_char c :: nat in
     if n = 34 \<or> n = 92 then [CHR 0x5C, c]
     else if n = 8 then [CHR 0x5C, CHR ''b''] else if n = 12 then [CHR 0x5C, CHR ''f'']
     else if n = 10 then [CHR 0x5C, CHR ''n''] else if n = 13 then [CHR 0x5C, CHR ''r'']
     else if n = 9 then [CHR 0x5C, CHR ''t'']
     else if n < 32 \<or> n = 60 \<or> n = 62 \<or> n = 38
       then [CHR 0x5C, CHR ''u'', CHR ''0'', CHR ''0'', hex_digit (n div 16), hex_digit (n mod 16)]
     else [c])"

definition jsonString :: "(string \<Rightarrow> string) \<Rightarrow> string \<Rightarrow> string" where
  "jsonString uq s = (if is_ascii s then CHR 0x22 # concat (map json_char s) @ [CHR 0x22] else uq s)"

fun join :: "string \<Rightarrow> string list \<Rightarrow> string" where
  "join sep [] = []"
| "join sep [x] = x"
| "join sep (x # y # ys) = x @ sep @ join sep (y # ys)"

text \<open>\<open>Encoder.Encode\<close>: the keys of a map come out sorted, and a newline ends the text.\<close>

fun encodeValue :: "(string \<Rightarrow> string) \<Rightarrow> json \<Rightarrow> string" where
  "encodeValue uq (JString s) = jsonString uq s"
| "encodeValue uq (JObject kvs) =
     ''{'' @ join '','' (map snd (sort_key fst (map (\<lambda>(k, v). (k, jsonString uq k @ '':'' @ encodeValue uq v)) kvs))) @ ''}''"

definition Encode :: "(string \<Rightarrow> string) \<Rightarrow> json \<Rightarrow> string" where
  "Encode uq v = encodeValue uq v @ [CHR 0x0A]"

section \<open>The handler\<close>

text \<open>A \<open>url.Values\<close> or \<open>http.Header\<close> in the order in which the loop happens to visit it.\<close>

type_synonym multimap = "(string \<times> string list) list"

record request =
  rMethod :: string
  rURL :: string
  rPath :: string
  rQuery :: multimap
  rHeader :: multimap
  rHost :: string

record response =
  wStatus :: int
  wHeader :: "string \<rightharpoonup> string"
  wBody :: string
  wLog :: "(level \<times> string) list"

definition newResponse :: response where
  "newResponse = \<lparr>wStatus = 200, wHeader = Map.empty, wBody = [], wLog = []\<rparr>"

definition httpError :: "string \<Rightarrow> int \<Rightarrow> response \<Rightarrow> response" where
  "httpError msg code w = w\<lparr>wHeader := (wHeader w)(''Content-Type'' \<mapsto> ''text/plain; charset=utf-8'',
     ''X-Content-Type-Options'' \<mapsto> ''nosniff''), wStatus := code, wBody := wBody w @ msg @ [CHR 0x0A]\<rparr>"

text \<open>The two loops that keep the first value of every key that has one.\<close>

definition firstValues :: "multimap \<Rightarrow> strmap" where
  "firstValues m = foldl (\<lambda>q (k, v). if 0 < length v then q @ [(k, v ! 0)] else q) [] m"

definition jsonMap :: "strmap \<Rightarrow> json" where
  "jsonMap m = JObject (map (\<lambda>(k, v). (k, JString v)) m)"

definition echoResponse :: "request \<Rightarrow> json" where
  "echoResponse r = JObject
     [(''method'', JString (rMethod r)), (''url'', JString (rURL r)), (''path'', JString (rPath r)),
      (''query'', jsonMap (firstValues (rQuery r))), (''headers'', jsonMap (firstValues (rHeader r))),
      (''host'', JString (rHost r))]"

definition httpEchoHandler ::
    "(string \<Rightarrow> string) \<Rightarrow> goerror option \<Rightarrow> request \<Rightarrow> response \<Rightarrow> response" where
  "httpEchoHandler uq writeErr r w =
     (if rMethod r \<noteq> ''GET'' then httpError ''Method not allowed'' 405 w
      else
        (let w1 = w\<lparr>wHeader := (wHeader w)(''Content-Type'' \<mapsto> ''application/json'')\<rparr>
         in case writeErr of
              Some e \<Rightarrow> w1\<lparr>wLog := wLog w1 @ [(LevelError, ''Failed to encode JSON response'')]\<rparr>
            | None \<Rightarrow> w1\<lparr>wBody := wBody w1 @ Encode uq (echoResponse r)\<rparr>))"

section \<open>Reading quoted strings\<close>

definition hexValue :: "char \<Rightarrow> nat" where
  "hexValue c = (let n = of_char c in if n < 58 then n - 48 else n - 87)"

definition unescape :: "char \<Rightarrow> char" where
  "unescape c = (if c = CHR ''b'' then char_of (8::nat) else if c = CHR ''f'' then char_of (12::nat)
     else if c = CHR ''n'' then char_of (10::nat) else if c = CHR ''r'' then char_of (13::nat)
     else if c = CHR ''t'' then char_of (9::nat) else c)"

text \<open>The string before the closing quote, and what follows that quote.\<close>

fun readString :: "string \<Rightarrow> (string \<times> string) option" where
  "readString [] = None"
| "readString (c # cs) =
     (if c = CHR 0x22 then Some ([], cs)
      else if c = CHR 0x5C then
        (case cs of
           [] \<Rightarrow> None
         | d # ds \<Rightarrow>
             if d = CHR ''u'' then
               (case ds of
                  _ # _ # h # l # rest \<Rightarrow>
                    map_option (apfst (Cons (char_of (16 * hexValue h + hexValue l)))) (readString rest)
                | _ \<Rightarrow> None)
             else map_option (apfst (Cons (unescape d))) (readString ds))
      else map_option (apfst (Cons c)) (readString cs))"

lemma hexValue_digit: "n < 16 \<Longrightarrow> hexValue (hex_digit n) = n"
  by (auto simp: hexValue_def hex_digit_def Let_def)

lemma readString_char:
  assumes "of_char c < (128::nat)"
  shows "readString (json_char c @ rest) = map_option (apfst (Cons c)) (readString rest)"
proof -
  let ?n = "of_char c :: nat"
  have hex: "char_of (16 * hexValue (hex_digit (?n div 16)) + hexValue (hex_digit (?n mod 16))) = c"
    using assms by (simp add: hexValue_digit)
  have eq: "c = d \<longleftrightarrow> ?n = of_char d" for d by simp
  have esc: "unescape d = c" if "of_char (unescape d) = ?n" for d using that by simp
  consider "?n = 34 \<or> ?n = 92" | "?n = 8 \<or> ?n = 9 \<or> ?n = 10 \<or> ?n = 12 \<or> ?n = 13"
    | "?n < 32 \<or> ?n = 60 \<or> ?n = 62 \<or> ?n = 38" "?n \<noteq> 8" "?n \<noteq> 9" "?n \<noteq> 10" "?n \<noteq> 12" "?n \<noteq> 13" "?n \<noteq> 34" "?n \<noteq> 92"
    | "\<not> ?n < 32" "?n \<noteq> 34" "?n \<noteq> 92" "?n \<noteq> 60" "?n \<noteq> 62" "?n \<noteq> 38" by blast
  then show ?thesis
  proof cases
    case 1
    then have "c = CHR 0x22 \<or> c = CHR 0x5C" unfolding eq by (simp add: of_char_def)
    then show ?thesis by (auto simp: json_char_def unescape_def)
  next
    case 2
    then have "c = char_of (8::nat) \<or> c = char_of (9::nat) \<or> c = char_of (10::nat) \<or> c = char_of (12::nat) \<or> c = char_of (13::nat)"
      unfolding eq by simp
    then show ?thesis by (auto simp: json_char_def unescape_def)
  next
    case 3
    then show ?thesis using hex by (simp add: json_char_def Let_def)
  next
    case 4
    then have "c \<noteq> CHR 0x22" "c \<noteq> CHR 0x5C" unfolding eq by (simp_all add: of_char_def)
    then show ?thesis using 4 by (simp add: json_char_def Let_def)
  qed
qed

lemma readString_quoted:
  "is_ascii s \<Longrightarrow> readString (concat (map json_char s) @ CHR 0x22 # rest) = Some (s, rest)"
  by (induction s) (simp_all add: is_ascii_def readString_char del: readString.simps(2), simp)

text \<open>A string can be read back from its JSON form, whatever follows it.\<close>

lemma jsonString_read: "is_ascii s \<Longrightarrow> readString (tl (jsonString uq s) @ rest) = Some (s, rest)"
  by (simp add: jsonString_def readString_quoted)

section \<open>The order of maps\<close>

lemma sort_key_order:
  assumes "mset xs = mset ys" "distinct (map fst xs)"
  shows "sort_key fst xs = sort_key fst ys"
  by (rule sort_key_inj_key_eq) (use assms in \<open>simp_all add: distinct_map\<close>)

lemma firstValues_eq: "firstValues m = map (\<lambda>(k, v). (k, v ! 0)) (filter (\<lambda>(k, v). v \<noteq> []) m)"
proof -
  have "foldl (\<lambda>q (k, v). if 0 < length v then q @ [(k, v ! 0)] else q) acc m =
      acc @ map (\<lambda>(k, v). (k, v ! 0)) (filter (\<lambda>(k, v). v \<noteq> []) m)" for acc
    by (induction m arbitrary: acc) auto
  then show ?thesis by (simp add: firstValues_def)
qed

lemma firstValues_keys: "distinct (map fst m) \<Longrightarrow> distinct (map fst (firstValues m))"
  by (induction m) (force simp: firstValues_eq)+

lemma firstValues_order: "mset m = mset m' \<Longrightarrow> mset (firstValues m) = mset (firstValues m')"
  by (simp add: firstValues_eq mset_filter)

lemma firstValues_get:
  "distinct (map fst m) \<Longrightarrow> map_of (firstValues m) k =
     (case map_of m k of None \<Rightarrow> None | Some v \<Rightarrow> if v = [] then None else Some (v ! 0))"
proof (induction m)
  case (Cons kv m)
  moreover have "map_of m j = None \<Longrightarrow> map_of (firstValues m) j = None" for j
    by (auto simp: firstValues_eq map_of_eq_None_iff image_def)
  ultimately show ?case by (cases kv) (auto simp: firstValues_eq map_of_eq_None_iff)
qed (simp add: firstValues_eq)

lemma encode_order:
  assumes "mset m = mset m'" "distinct (map fst m)"
  shows "encodeValue uq (jsonMap m) = encodeValue uq (jsonMap m')"
proof -
  let ?f = "\<lambda>(k, v). (k, jsonString uq k @ '':'' @ jsonString uq v)"
  have "mset (map ?f m) = mset (map ?f m')" using assms(1) by simp
  moreover have "map fst (map ?f m) = map fst m" by (induction m) auto
  ultimately have "sort_key fst (map ?f m) = sort_key fst (map ?f m')"
    using assms(2) by (intro sort_key_order) (simp_all only:)
  then show ?thesis by (simp add: jsonMap_def case_prod_unfold comp_def)
qed

section \<open>Properties\<close>

text \<open>The first value of a key, the text of a JSON object of strings, and that of an answer.\<close>

definition firstValue :: "multimap \<Rightarrow> string \<Rightarrow> string option" where
  "firstValue m k = (case map_of m k of None \<Rightarrow> None | Some v \<Rightarrow> if v = [] then None else Some (v ! 0))"

definition objectText :: "(string \<Rightarrow> string) \<Rightarrow> strmap \<Rightarrow> string" where
  "objectText uq m = ''{'' @ join '','' (map (\<lambda>(k, x). jsonString uq k @ '':'' @ jsonString uq x) m) @ ''}''"

definition answerText :: "(string \<Rightarrow> string) \<Rightarrow> request \<Rightarrow> strmap \<Rightarrow> strmap \<Rightarrow> string" where
  "answerText uq r hs qs =
     ''{\"headers\":'' @ objectText uq hs @ '',\"host\":'' @ jsonString uq (rHost r) @
     '',\"method\":'' @ jsonString uq (rMethod r) @ '',\"path\":'' @ jsonString uq (rPath r) @
     '',\"query\":'' @ objectText uq qs @ '',\"url\":'' @ jsonString uq (rURL r) @ ''}'' @ [CHR 0x0A]"

lemma sort_key_map:
  assumes "\<And>x. fst (f x) = fst x"
  shows "sort_key fst (map f xs) = map f (sort_key fst xs)"
proof (induction xs)
  case (Cons x xs)
  have "insort_key fst (f y) (map f ys) = map f (insort_key fst y ys)" for y ys
    by (induction ys) (simp_all add: assms)
  with Cons show ?case by simp
qed simp

lemma encode_sorted: "encodeValue uq (jsonMap m) = objectText uq (sort_key fst m)"
proof -
  let ?f = "\<lambda>(k, v). (k, jsonString uq k @ '':'' @ jsonString uq v)"
  have "sort_key fst (map ?f m) = map ?f (sort_key fst m)" by (rule sort_key_map) (simp add: case_prod_unfold)
  then show ?thesis by (simp add: jsonMap_def objectText_def case_prod_unfold comp_def)
qed

lemma sorted_first:
  assumes "distinct (map fst m)"
  shows "sorted_wrt (<) (map fst (sort_key fst (firstValues m)))" "map_of (sort_key fst (firstValues m)) = firstValue m"
proof -
  let ?s = "sort_key fst (firstValues m)"
  have d: "distinct (map fst (firstValues m))" by (rule firstValues_keys [OF assms])
  have "distinct (map fst ?s)" using d by (metis mset_map mset_sort mset_eq_imp_distinct_iff)
  then show "sorted_wrt (<) (map fst ?s)" by (simp add: strict_sorted_iff)
  have "map_of ?s = map_of (firstValues m)"
    using d \<open>distinct (map fst ?s)\<close> by (intro map_of_inject_set [THEN iffD2]) simp_all
  then show "map_of ?s = firstValue m" using firstValues_get [OF assms] by (simp add: firstValue_def fun_eq_iff)
qed

lemma response_keys:
  "sort_key fst [(''method'', a), (''url'', b), (''path'', c), (''query'', d), (''headers'', e), (''host'', f)] =
     [(''headers'', e), (''host'', f), (''method'', a), (''path'', c), (''query'', d), (''url'', b)]"
  (is "sort_key fst ?xs = ?ys")
proof -
  have "sorted [''headers'', ''host'', ''method'', ''path'', ''query'', ''url'']" by code_simp
  then have "sort_key fst ?ys = ?ys" by (intro sort_key_id_if_sorted) simp
  moreover have "sort_key fst ?xs = sort_key fst ?ys" by (rule sort_key_order) simp_all
  ultimately show ?thesis by simp
qed

lemma jsonString_keys:
  "jsonString uq ''headers'' = ''\"headers\"''" "jsonString uq ''host'' = ''\"host\"''" "jsonString uq ''method'' = ''\"method\"''"
  "jsonString uq ''path'' = ''\"path\"''" "jsonString uq ''query'' = ''\"query\"''" "jsonString uq ''url'' = ''\"url\"''"
  by (simp_all add: jsonString_def is_ascii_def json_char_def)

text \<open>
  C34. What the HTTP echo server answers: every method but \<open>GET\<close> is refused with the status 405 and a
  line of plain text. A \<open>GET\<close> is answered with the status 200 and one JSON object, with the keys
  \<open>headers\<close>, \<open>host\<close>, \<open>method\<close>, \<open>path\<close>, \<open>query\<close> and \<open>url\<close> of the request, in which \<open>headers\<close> has the first value of
  every header that has one, \<open>query\<close> that of every query parameter, both ordered by their names; so the answer
  does not depend on the order in which Go ranges over the two maps. A response that cannot be
  written is logged.
\<close>

theorem http_echo_answer:
  assumes "distinct (map fst (rQuery r))" "distinct (map fst (rHeader r))"
    and "mset q = mset (rQuery r)" "mset h = mset (rHeader r)"
  shows "httpEchoHandler uq err (r\<lparr>rQuery := q, rHeader := h\<rparr>) w = httpEchoHandler uq err r w \<and>
    (if rMethod r \<noteq> ''GET''
     then wStatus (httpEchoHandler uq err r newResponse) = 405 \<and>
       wHeader (httpEchoHandler uq err r newResponse) ''Content-Type'' = Some ''text/plain; charset=utf-8'' \<and>
       wBody (httpEchoHandler uq err r newResponse) = ''Method not allowed'' @ [CHR 0x0A]
     else wStatus (httpEchoHandler uq err r newResponse) = 200 \<and>
       wHeader (httpEchoHandler uq err r newResponse) = [''Content-Type'' \<mapsto> ''application/json''] \<and>
       (if err = None
        then \<exists>hs qs. sorted_wrt (<) (map fst hs) \<and> map_of hs = firstValue (rHeader r) \<and>
          sorted_wrt (<) (map fst qs) \<and> map_of qs = firstValue (rQuery r) \<and>
          wBody (httpEchoHandler uq err r newResponse) = answerText uq r hs qs
        else wLog (httpEchoHandler uq err r newResponse) = [(LevelError, ''Failed to encode JSON response'')]))"
proof -
  have "encodeValue uq (jsonMap (firstValues q)) = encodeValue uq (jsonMap (firstValues (rQuery r)))"
    by (rule encode_order [symmetric]) (use assms(1,3) firstValues_order [of q "rQuery r"] firstValues_keys in simp_all)
  moreover have "encodeValue uq (jsonMap (firstValues h)) = encodeValue uq (jsonMap (firstValues (rHeader r)))"
    by (rule encode_order [symmetric]) (use assms(2,4) firstValues_order [of h "rHeader r"] firstValues_keys in simp_all)
  ultimately have "Encode uq (echoResponse (r\<lparr>rQuery := q, rHeader := h\<rparr>)) = Encode uq (echoResponse r)"
    by (simp add: Encode_def echoResponse_def)
  then have order: "httpEchoHandler uq err (r\<lparr>rQuery := q, rHeader := h\<rparr>) w = httpEchoHandler uq err r w"
    by (simp add: httpEchoHandler_def Let_def split: option.split)
  let ?hs = "sort_key fst (firstValues (rHeader r))" and ?qs = "sort_key fst (firstValues (rQuery r))"
  have body: "Encode uq (echoResponse r) = answerText uq r ?hs ?qs"
    by (simp add: Encode_def echoResponse_def response_keys encode_sorted jsonString_keys answerText_def)
  have "\<exists>hs qs. sorted_wrt (<) (map fst hs) \<and> map_of hs = firstValue (rHeader r) \<and>
      sorted_wrt (<) (map fst qs) \<and> map_of qs = firstValue (rQuery r) \<and> Encode uq (echoResponse r) = answerText uq r hs qs"
    using sorted_first [OF assms(1)] sorted_first [OF assms(2)]
    by (intro exI [of _ ?hs] exI [of _ ?qs] conjI body)
  note answer = this
  show ?thesis
    by (rule conjI [OF order]) (use answer in \<open>simp add: httpEchoHandler_def Let_def newResponse_def httpError_def split: option.split\<close>)
qed

definition exRequest :: request where
  "exRequest = \<lparr>rMethod = ''GET'', rURL = ''/?a=1&b=2'', rPath = ''/'', rQuery = [(''a'', [''1'']), (''b'', [''2'', ''3''])],
     rHeader = [], rHost = ''localhost''\<rparr>"

theorem http_echo_answer_witness:
  "httpEchoHandler id None (exRequest\<lparr>rQuery := [(''b'', [''2'', ''3'']), (''a'', [''1''])], rHeader := []\<rparr>) newResponse =
     httpEchoHandler id None exRequest newResponse \<and> wStatus (httpEchoHandler id None exRequest newResponse) = 200"
  using http_echo_answer [of exRequest "[(''b'', [''2'', ''3'']), (''a'', [''1''])]" "[]" id None newResponse]
  by (simp add: exRequest_def)

end
