(* ===== verification/TestConsole.thy ===== *)
theory TestConsole
  imports Prelude
begin

text \<open>
  The console that test scripts see (\<open>internal/testscript/console.go\<close>) and the stub of the module
  \<open>k6/execution\<close> (\<open>execution.go\<close>): what a script prints, and when it fails its test. JavaScript values
  belong to the engine; what the code asks of them is a parameter (\<open>jsvalues\<close>).
\<close>

section \<open>Tests\<close>

text \<open>
  What the code uses of \<open>testing.T\<close>: whether the test has failed, what it logged, its output, its
  attributes and what it has to clean up. An operation that ends the test goroutine (\<open>Fatal\<close>) returns \<open>None\<close>.
\<close>

record test =
  failed :: bool
  logged :: "string list"
  testOutput :: string
  attrs :: "(string \<times> string) list"
  cleanups :: "string list"

definition newTest :: test where
  "newTest = \<lparr>failed = False, logged = [], testOutput = [], attrs = [], cleanups = []\<rparr>"

definition tbFail :: "test \<Rightarrow> test" where
  "tbFail t = t\<lparr>failed := True\<rparr>"

definition tbErrorf :: "string \<Rightarrow> test \<Rightarrow> test" where
  "tbErrorf msg t = tbFail (t\<lparr>logged := logged t @ [msg]\<rparr>)"

definition tbFatalf :: "string \<Rightarrow> test \<Rightarrow> 'a option \<times> test" where
  "tbFatalf msg t = (None, tbErrorf msg t)"

section \<open>The console\<close>

record 'v jsvalues =
  AssertFunction :: "'v \<Rightarrow> bool"
  implementsError :: "'v \<Rightarrow> bool"
  exportError :: "'v \<Rightarrow> goerror option"
  errorObject :: "'v \<Rightarrow> bool"
  valString :: "'v \<Rightarrow> string"
  MarshalJSON :: "'v \<Rightarrow> string result option"
  IsString :: "'v \<Rightarrow> bool"
  toValueString :: "string \<Rightarrow> 'v"

definition functionLog :: string where
  "functionLog = ''[object Function]''"

definition valueString :: "'v jsvalues \<Rightarrow> 'v \<Rightarrow> string" where
  "valueString js v =
     (if AssertFunction js v then functionLog
      else case (if implementsError js v then exportError js v else None) of
        Some err \<Rightarrow> Error err
      | None \<Rightarrow>
          if errorObject js v then valString js v
          else (case MarshalJSON js v of
              None \<Rightarrow> valString js v
            | Some (Inl err) \<Rightarrow> valString js v
            | Some (Inr b) \<Rightarrow> b))"

definition upper_char :: "char \<Rightarrow> char" where
  "upper_char c = (let n = of_char c :: nat in if 97 \<le> n \<and> n \<le> 122 then char_of (n - 32) else c)"

text \<open>The verb \<open>%-6s\<close>, on ASCII text.\<close>

definition padRight :: "nat \<Rightarrow> string \<Rightarrow> string" where
  "padRight n s = s @ replicate (n - length s) (CHR '' '')"

fun logArgs :: "'v jsvalues \<Rightarrow> nat \<Rightarrow> 'v list \<Rightarrow> string" where
  "logArgs js i [] = []"
| "logArgs js i (v # vs) = (if i > 0 then '' '' else []) @ valueString js v @ logArgs js (Suc i) vs"

definition consoleLog :: "'v jsvalues \<Rightarrow> goerror option \<Rightarrow> string \<Rightarrow> 'v list \<Rightarrow> test \<Rightarrow> test" where
  "consoleLog js writeErr lvl args t =
     (let msg = logArgs js 0 args;
          lv = map upper_char lvl;
          t1 = (case writeErr of
              None \<Rightarrow> t\<lparr>testOutput := testOutput t @ padRight 6 lv @ '' '' @ msg @ [CHR 0x0A]\<rparr>
            | Some err \<Rightarrow> tbErrorf (''failed to write to test output: '' @ Error err) t)
      in if lv = ''ERROR'' \<or> lv = ''ASSERT'' then tbFail t1 else t1)"

definition consoleAssert :: "'v jsvalues \<Rightarrow> goerror option \<Rightarrow> bool \<Rightarrow> 'v list \<Rightarrow> test \<Rightarrow> test" where
  "consoleAssert js writeErr assertion args t =
     (if assertion then t
      else
        (let msg = ''Assertion failed'';
             args' = (case args of
                 [] \<Rightarrow> [toValueString js msg]
               | first # rest \<Rightarrow>
                   if IsString js first then toValueString js (msg @ '': '' @ valString js first) # rest
                   else toValueString js msg # args)
         in consoleLog js writeErr ''assert'' args' t))"

definition consoleInfo :: "'v jsvalues \<Rightarrow> goerror option \<Rightarrow> 'v list \<Rightarrow> test \<Rightarrow> test" where
  "consoleInfo js writeErr args t = consoleLog js writeErr ''info'' args t"

definition consoleLogInfo :: "'v jsvalues \<Rightarrow> goerror option \<Rightarrow> 'v list \<Rightarrow> test \<Rightarrow> test" where
  "consoleLogInfo js writeErr args t = consoleInfo js writeErr args t"

definition consoleDebug :: "'v jsvalues \<Rightarrow> goerror option \<Rightarrow> 'v list \<Rightarrow> test \<Rightarrow> test" where
  "consoleDebug js writeErr args t = consoleLog js writeErr ''debug'' args t"

definition consoleWarn :: "'v jsvalues \<Rightarrow> goerror option \<Rightarrow> 'v list \<Rightarrow> test \<Rightarrow> test" where
  "consoleWarn js writeErr args t = consoleLog js writeErr ''warn'' args t"

definition consoleError :: "'v jsvalues \<Rightarrow> goerror option \<Rightarrow> 'v list \<Rightarrow> test \<Rightarrow> test" where
  "consoleError js writeErr args t = consoleLog js writeErr ''error'' args t"

section \<open>The module k6/execution\<close>

text \<open>The two functions it exports under \<open>test\<close>: \<open>fail\<close> marks the test, \<open>abort\<close> also ends it.\<close>

datatype executionCall = Fail string | Abort string

definition executionTest :: "executionCall \<Rightarrow> test \<Rightarrow> unit option \<times> test" where
  "executionTest c t = (case c of
       Fail msg \<Rightarrow> (Some (), tbErrorf msg t)
     | Abort msg \<Rightarrow> tbFatalf msg t)"

text \<open>\<open>Exports\<close>: one named export, an object with these two functions.\<close>

definition executionExports :: "(string \<times> (string \<times> (string \<Rightarrow> executionCall)) list) list" where
  "executionExports = [(''test'', [(''fail'', Fail), (''abort'', Abort)])]"

section \<open>Lemmas\<close>

text \<open>What the engine documents of a string value: it is no function, error or object, and is its text.\<close>

definition string_laws :: "'v jsvalues \<Rightarrow> bool" where
  "string_laws js \<longleftrightarrow> (\<forall>s. \<not> AssertFunction js (toValueString js s) \<and> \<not> implementsError js (toValueString js s) \<and>
     \<not> errorObject js (toValueString js s) \<and> MarshalJSON js (toValueString js s) = None \<and>
     valString js (toValueString js s) = s)"

lemma valueString_string: "string_laws js \<Longrightarrow> valueString js (toValueString js s) = s"
  by (simp add: string_laws_def valueString_def)

lemma upper_levels:
  "map upper_char ''assert'' = ''ASSERT''" "map upper_char ''error'' = ''ERROR''" "map upper_char ''info'' = ''INFO''"
  "map upper_char ''debug'' = ''DEBUG''" "map upper_char ''warn'' = ''WARN''"
  by code_simp+

text \<open>The line one call prints.\<close>

definition consoleLine :: "'v jsvalues \<Rightarrow> string \<Rightarrow> 'v list \<Rightarrow> string" where
  "consoleLine js lv args = padRight 6 lv @ '' '' @ logArgs js 0 args @ [CHR 0x0A]"

lemma consoleLog_spec:
  "consoleLog js None lvl args t =
     t\<lparr>testOutput := testOutput t @ consoleLine js (map upper_char lvl) args,
       failed := (failed t \<or> map upper_char lvl = ''ERROR'' \<or> map upper_char lvl = ''ASSERT'')\<rparr>"
  by (simp add: consoleLog_def Let_def consoleLine_def tbFail_def)

lemma console_levels:
  "consoleLog js None ''assert'' args t = t\<lparr>testOutput := testOutput t @ consoleLine js ''ASSERT'' args, failed := True\<rparr>"
  "consoleLog js None ''error'' args t = t\<lparr>testOutput := testOutput t @ consoleLine js ''ERROR'' args, failed := True\<rparr>"
  "consoleLog js None ''info'' args t = t\<lparr>testOutput := testOutput t @ consoleLine js ''INFO'' args\<rparr>"
  "consoleLog js None ''debug'' args t = t\<lparr>testOutput := testOutput t @ consoleLine js ''DEBUG'' args\<rparr>"
  "consoleLog js None ''warn'' args t = t\<lparr>testOutput := testOutput t @ consoleLine js ''WARN'' args\<rparr>"
  unfolding consoleLog_spec upper_levels by simp_all

lemma assert_line:
  "string_laws js \<Longrightarrow> consoleLine js ''ASSERT'' (toValueString js (''Assertion failed'' @ x) # vs) =
     ''ASSERT Assertion failed'' @ x @ logArgs js (Suc 0) vs @ [CHR 0x0A]"
  by (simp add: consoleLine_def padRight_def valueString_string)

lemma consoleLog_lost: "failed (consoleLog js (Some err) lvl args t)"
  by (simp add: consoleLog_def Let_def tbErrorf_def tbFail_def)

lemma logArgs_head: "logArgs js 0 (v # vs) = valueString js v @ logArgs js (Suc 0) vs"
  by simp

section \<open>Properties\<close>

text \<open>The arguments a failed assertion prints: the script's own message follows \<open>Assertion failed\<close>.\<close>

lemma consoleAssert_line:
  assumes "string_laws js"
  shows "consoleAssert js None False args t = t\<lparr>failed := True, testOutput := testOutput t @ ''ASSERT Assertion failed'' @
    (case args of
       [] \<Rightarrow> []
     | first # rest \<Rightarrow>
         if IsString js first then '': '' @ valString js first @ logArgs js (Suc 0) rest
         else logArgs js (Suc 0) args) @ [CHR 0x0A]\<rparr>"
proof -
  have "consoleLog js None ''assert'' (toValueString js (''Assertion failed'' @ x) # vs) t =
      t\<lparr>failed := True, testOutput := testOutput t @ ''ASSERT Assertion failed'' @ x @ logArgs js (Suc 0) vs @ [CHR 0x0A]\<rparr>" for x vs
    unfolding console_levels assert_line [OF assms] by simp
  from this [of "[]"] this [of "'': '' @ x" for x] show ?thesis
    by (auto simp: consoleAssert_def split: list.split)
qed


datatype exValue = XString string | XFunction | XJSON string

definition exValues :: "exValue jsvalues" where
  "exValues = \<lparr>AssertFunction = (\<lambda>v. v = XFunction), implementsError = (\<lambda>_. False), exportError = (\<lambda>_. None),
     errorObject = (\<lambda>_. False), valString = (\<lambda>v. case v of XString s \<Rightarrow> s | _ \<Rightarrow> []),
     MarshalJSON = (\<lambda>v. case v of XJSON j \<Rightarrow> Some (Inr j) | _ \<Rightarrow> None),
     IsString = (\<lambda>v. case v of XString s \<Rightarrow> True | _ \<Rightarrow> False), toValueString = XString\<rparr>"


end
