(* ===== verification/TestRun.thy ===== *)
theory TestRun
  imports TestConsole "HOL-Library.Sublist"
begin

text \<open>
  The runner of test scripts (\<open>internal/testscript/run.go\<close>, \<open>runtime.go\<close>, \<open>integration.go\<close>): which
  modules and which environment a script gets, in which order it is compiled, run and called, how the
  verdicts of several files combine, and how an integration test starts itself again as a child
  process that runs \<open>k6\<close>. The runtime of k6 is a parameter (\<open>harness\<close>); \<open>strings.Cut\<close> and the command
  line parser of the package \<open>flag\<close> are modelled from the Go library.
\<close>

section \<open>Modules and environment\<close>

text \<open>A value of type \<open>any\<close> in a list of module pairs.\<close>

datatype 'm anyValue = AString string | AModule 'm | AExecutionRoot

text \<open>The stub of \<open>k6/execution\<close> (\<open>execution.go\<close>), whose module instance exports \<open>executionExports\<close>.\<close>

definition newExecutionRoot :: "'m anyValue" where
  "newExecutionRoot = AExecutionRoot"

text \<open>The extensions registered with k6, in the order in which the loop happens to visit them.\<close>

definition registeredExtensions :: "(string \<times> 'm) list \<Rightarrow> 'm anyValue list" where
  "registeredExtensions extensions = concat (map (\<lambda>(path, e). [AString path, AModule e]) extensions)"

definition modulePairsOrRegistered ::
    "(string \<times> 'm) list \<Rightarrow> 'm anyValue list \<Rightarrow> test \<Rightarrow> 'm anyValue list option \<times> test" where
  "modulePairsOrRegistered extensions modulePairs t =
     (if length modulePairs mod 2 \<noteq> 0
      then tbFatalf (''modulePairs length must be even, got '' @ Itoa (int (length modulePairs))) t
      else if length modulePairs = 0 then (Some (registeredExtensions extensions), t)
      else (Some modulePairs, t))"

text \<open>The loop over the pairs; \<open>ty\<close> is the text of the verb \<open>%T\<close>.\<close>

fun moduleLoop ::
    "('m anyValue \<Rightarrow> string) \<Rightarrow> nat \<Rightarrow> 'm anyValue list \<Rightarrow> (string \<rightharpoonup> 'm anyValue) \<Rightarrow> test \<Rightarrow>
     (string \<rightharpoonup> 'm anyValue) option \<times> test" where
  "moduleLoop ty i (p # v # rest) m t = (case p of
       AString importPath \<Rightarrow> moduleLoop ty (i + 2) rest (m(importPath \<mapsto> v)) t
     | _ \<Rightarrow> tbFatalf (''module pair at index '' @ Itoa (int i) @ '': expected string for import path, got '' @ ty p) t)"
| "moduleLoop ty i _ m t = (Some m, t)"

text \<open>\<open>strings.Cut\<close> around the first \<open>=\<close>.\<close>

definition Cut :: "string \<Rightarrow> string \<times> string \<times> bool" where
  "Cut s = (if CHR ''='' \<in> set s
     then (takeWhile (\<lambda>c. c \<noteq> CHR ''='') s, tl (dropWhile (\<lambda>c. c \<noteq> CHR ''='') s), True)
     else (s, [], False))"

definition envOf :: "string list \<Rightarrow> (string \<rightharpoonup> string)" where
  "envOf environ = foldl (\<lambda>env e. case Cut e of (key, val, ok) \<Rightarrow> if ok then env(key \<mapsto> val) else env) Map.empty environ"

text \<open>
  What the runtime of k6 does with a script. Running a program and calling a function may fail the
  test through the console, so that they get the test and return it. \<open>ToObject\<close> panics on a value that is
  no object and has none, as \<open>undefined\<close> and \<open>null\<close> (\<open>None\<close>).
\<close>

record ('m, 'p, 'v, 'f, 'k) harness =
  setConsole :: "goerror option"
  SetupModuleSystem :: "(string \<rightharpoonup> 'm anyValue) \<Rightarrow> goerror option"
  setEnvVar :: "(string \<rightharpoonup> string) \<Rightarrow> goerror option"
  objSet :: "string \<Rightarrow> string \<Rightarrow> goerror option"
  CompileFile :: "string \<Rightarrow> string \<Rightarrow> 'p result"
  RunProgram :: "'p \<Rightarrow> test \<Rightarrow> goerror option \<times> test"
  moduleExports :: "'v result"
  ToObject :: "'v \<Rightarrow> 'v option"
  defaultFunction :: "'v \<Rightarrow> 'f option"
  callFunction :: "'f \<Rightarrow> test \<Rightarrow> goerror option \<times> test"
  WaitOnRegistered :: "test \<Rightarrow> test"
  fpDir :: "string \<Rightarrow> string"
  fpBase :: "string \<Rightarrow> string"
  fpToSlash :: "string \<Rightarrow> string"
  typeName :: "'m anyValue \<Rightarrow> string"
  requireText :: "goerror \<Rightarrow> string"
  DefaultSystemTagSet :: 'k
  NewDialer :: "nat \<Rightarrow> string \<Rightarrow> string \<Rightarrow> 'k"
  RegisterBuiltinMetrics :: 'k
  NewVUStateTags :: "(string \<times> string) list \<Rightarrow> 'k"
  RootGroupPath :: string

text \<open>\<open>require.NoError\<close>.\<close>

definition requireNoError ::
    "('m, 'p, 'v, 'f, 'k) harness \<Rightarrow> goerror option \<Rightarrow> (test \<Rightarrow> 'a option \<times> test) \<Rightarrow> test \<Rightarrow> 'a option \<times> test" where
  "requireNoError h err k t = (case err of Some e \<Rightarrow> tbFatalf (requireText h e) t | None \<Rightarrow> k t)"

definition newTestRuntime ::
    "('m, 'p, 'v, 'f, 'k) harness \<Rightarrow> string list \<Rightarrow> 'm anyValue list \<Rightarrow> test \<Rightarrow>
     ((string \<rightharpoonup> 'm anyValue) \<times> (string \<rightharpoonup> string)) option \<times> test" where
  "newTestRuntime h environ modulePairs t =
     requireNoError h (setConsole h) (\<lambda>t.
       case moduleLoop (typeName h) 0 modulePairs Map.empty t of
         (None, t1) \<Rightarrow> (None, t1)
       | (Some m, t1) \<Rightarrow>
           (let moduleMap = m(''k6/execution'' \<mapsto> newExecutionRoot) in
            requireNoError h (SetupModuleSystem h moduleMap) (\<lambda>t.
              requireNoError h (setEnvVar h (envOf environ)) (\<lambda>t. (Some (moduleMap, envOf environ), t)) t) t1)) t"

section \<open>The state of the virtual user\<close>

text \<open>
  \<open>lib.State\<close>: its parts come from constructors of k6. Of the channel \<open>Samples\<close> the capacity counts, and that
  it is closed when the test is over; the resolver is described by its time to live, selection and policy.
\<close>

record 'k libState =
  SystemTags :: 'k
  StateDialer :: 'k
  SamplesCap :: nat
  BuiltinMetrics :: 'k
  StateTags :: 'k
  LogLevel :: string

definition maxTestSampleContainers :: nat where
  "maxTestSampleContainers = 1000"

definition newTestVUState :: "('m, 'p, 'v, 'f, 'k) harness \<Rightarrow> test \<Rightarrow> 'k libState \<times> test" where
  "newTestVUState h t =
     (\<lparr>SystemTags = DefaultSystemTagSet h, StateDialer = NewDialer h 0 ''first'' ''preferIPv4'',
       SamplesCap = maxTestSampleContainers, BuiltinMetrics = RegisterBuiltinMetrics h,
       StateTags = NewVUStateTags h [(''group'', RootGroupPath h)], LogLevel = ''info''\<rparr>,
      t\<lparr>cleanups := cleanups t @ [''close(samples)'']\<rparr>)"

section \<open>Running a script\<close>

datatype event = ProgramRun | MovedToVU | DefaultCalled | EventLoopDone

record 'k testRun =
  tst :: test
  history :: "event list"
  vuState :: "'k libState option"
  crashed :: bool

text \<open>\<open>if err != nil { t.Fatalf(...) }\<close> and what follows it.\<close>

definition orFatal :: "goerror option \<Rightarrow> string \<Rightarrow> ('k testRun \<Rightarrow> unit option \<times> 'k testRun) \<Rightarrow> 'k testRun \<Rightarrow> unit option \<times> 'k testRun" where
  "orFatal err msg k s = (case err of
       Some e \<Rightarrow> (None, s\<lparr>tst := tbErrorf (msg @ Error e) (tst s)\<rparr>)
     | None \<Rightarrow> k s)"

definition happened :: "event \<Rightarrow> 'k testRun \<Rightarrow> 'k testRun" where
  "happened e s = s\<lparr>history := history s @ [e]\<rparr>"

definition setFailed :: "string \<Rightarrow> string \<Rightarrow> string" where
  "setFailed filename key = filename @ '': Set property '' @ [CHR 0x22] @ key @ [CHR 0x22] @ '' failed: ''"

text \<open>From the call of the default function on.\<close>

definition callDefault ::
    "('m, 'p, 'v, 'f, 'k) harness \<Rightarrow> string \<Rightarrow> 'v \<Rightarrow> 'k testRun \<Rightarrow> unit option \<times> 'k testRun" where
  "callDefault h filename exports s = (case defaultFunction h exports of
       None \<Rightarrow> (None, s\<lparr>tst := tbErrorf (filename @ '': exports.default should be a function'') (tst s)\<rparr>)
     | Some fn \<Rightarrow>
         (let (err, t) = callFunction h fn (tst s); s1 = happened DefaultCalled (s\<lparr>tst := t\<rparr>)
          in orFatal err (filename @ '': default() failed: '')
               (\<lambda>s. (Some (), happened EventLoopDone (s\<lparr>tst := WaitOnRegistered h (tst s)\<rparr>))) s1))"

text \<open>From the compiled program on.\<close>

definition runProgram ::
    "('m, 'p, 'v, 'f, 'k) harness \<Rightarrow> string \<Rightarrow> 'p \<Rightarrow> 'k libState \<Rightarrow> 'k testRun \<Rightarrow> unit option \<times> 'k testRun" where
  "runProgram h filename prog st s =
     (let (err, t) = RunProgram h prog (tst s); s1 = happened ProgramRun (s\<lparr>tst := t\<rparr>)
      in orFatal err (filename @ '': run failed: '')
           (\<lambda>s. let s2 = happened MovedToVU (s\<lparr>vuState := Some st\<rparr>)
                in case moduleExports h of
                     Inl e \<Rightarrow> orFatal (Some e) (filename @ '': failed to get module.exports: '') (\<lambda>s. (Some (), s)) s2
                   | Inr result \<Rightarrow>
                       (case ToObject h result of
                          None \<Rightarrow> (None, s2\<lparr>tst := tbFail (tst s2), crashed := True\<rparr>)
                        | Some exports \<Rightarrow> callDefault h filename exports s2)) s1)"

definition RunFile ::
    "('m, 'p, 'v, 'f, 'k) harness \<Rightarrow> string list \<Rightarrow> string \<Rightarrow> 'm anyValue list \<Rightarrow> 'k testRun \<Rightarrow> unit option \<times> 'k testRun" where
  "RunFile h environ filename modulePairs s =
     (let s0 = s\<lparr>tst := (tst s)\<lparr>attrs := attrs (tst s) @ [(''script'', filename)]\<rparr>\<rparr> in
      case newTestRuntime h environ modulePairs (tst s0) of
        (None, t) \<Rightarrow> (None, s0\<lparr>tst := t\<rparr>)
      | (Some _, t) \<Rightarrow>
          (let (st, t1) = newTestVUState h t in
           orFatal (objSet h ''module'' ''exports'') (setFailed filename ''exports'')
          (orFatal (objSet h ''global'' ''module'') (setFailed filename ''module'')
          (orFatal (objSet h ''global'' ''exports'') (setFailed filename ''exports'')
          (\<lambda>s. case CompileFile h (fpDir h filename) (fpBase h filename) of
                 Inl e \<Rightarrow> orFatal (Some e) (filename @ '': compile failed: '') (\<lambda>s. (Some (), s)) s
               | Inr prog \<Rightarrow> runProgram h filename prog st s))) (s0\<lparr>tst := t1\<rparr>)))"

text \<open>
  Each file is a subtest with a test of its own; a failed subtest fails its parent, and the next one
  runs all the same. A subtest that panics ends the whole test process.
\<close>

definition newTestRun :: "'k testRun" where
  "newTestRun = \<lparr>tst = newTest, history = [], vuState = None, crashed = False\<rparr>"

definition subtest :: "'k testRun \<Rightarrow> test \<Rightarrow> test" where
  "subtest r t = (if failed (tst r) then tbFail t else t)"

definition RunFiles ::
    "('m, 'p, 'v, 'f, 'k) harness \<Rightarrow> (string \<times> 'm) list \<Rightarrow> string list \<Rightarrow> string list \<Rightarrow> 'm anyValue list \<Rightarrow> test \<Rightarrow>
     (string \<times> 'k testRun) list option \<times> test" where
  "RunFiles h extensions environ files modulePairs t =
     (if length files = 0 then tbFatalf ''no test files provided'' t
      else case modulePairsOrRegistered extensions modulePairs t of
        (None, t1) \<Rightarrow> (None, t1)
      | (Some pairs, t1) \<Rightarrow>
          (let results = map (\<lambda>file. (fpToSlash h file, snd (RunFile h environ file pairs newTestRun))) files
           in if list_ex (\<lambda>r. crashed (snd r)) results then (None, tbFail t1)
              else (Some results, foldl (\<lambda>t r. subtest (snd r) t) t1 results)))"

definition RunGlob ::
    "(string \<Rightarrow> string list result) \<Rightarrow> golib \<Rightarrow> ('m, 'p, 'v, 'f, 'k) harness \<Rightarrow> (string \<times> 'm) list \<Rightarrow> string list \<Rightarrow> string \<Rightarrow>
     'm anyValue list \<Rightarrow> test \<Rightarrow> (string \<times> 'k testRun) list option \<times> test" where
  "RunGlob Glob G h extensions environ glob modulePairs t = (case Glob glob of
       Inl err \<Rightarrow> tbFatalf (''glob '' @ Quote G glob @ '' failed: '' @ Error err) t
     | Inr files \<Rightarrow> RunFiles h extensions environ files modulePairs t)"

section \<open>Integration tests\<close>

text \<open>
  The package \<open>flag\<close>: \<open>formal\<close> says which flags exist and whether they are boolean; the result has the
  text each flag was set to.
\<close>

definition splitFlag :: "string \<Rightarrow> string \<times> string option" where
  "splitFlag name =
     (hd name # takeWhile (\<lambda>c. c \<noteq> CHR ''='') (tl name),
      if CHR ''='' \<in> set (tl name) then Some (tl (dropWhile (\<lambda>c. c \<noteq> CHR ''='') (tl name))) else None)"

definition ParseBool :: "string \<Rightarrow> bool option" where
  "ParseBool s = (if s \<in> {''1'', ''t'', ''T'', ''TRUE'', ''true'', ''True''} then Some True
     else if s \<in> {''0'', ''f'', ''F'', ''FALSE'', ''false'', ''False''} then Some False else None)"

fun parseFlags :: "(string \<Rightarrow> bool option) \<Rightarrow> string list \<Rightarrow> (string \<rightharpoonup> string) \<Rightarrow> (string \<rightharpoonup> string) result" where
  "parseFlags formal [] acc = Inr acc"
| "parseFlags formal (s # args) acc =
     (if length s < 2 \<or> s ! 0 \<noteq> CHR ''-'' then Inr acc
      else if s ! 1 = CHR ''-'' \<and> length s = 2 then Inr acc
      else
        (let name = drop (if s ! 1 = CHR ''-'' then 2 else 1) s in
         if name = [] \<or> hd name = CHR ''-'' \<or> hd name = CHR ''='' then Inl (New (''bad flag syntax: '' @ s))
         else (case splitFlag name of (n, val) \<Rightarrow>
           (case formal n of
              None \<Rightarrow> Inl (New (''flag provided but not defined: -'' @ n))
            | Some True \<Rightarrow>
                (case ParseBool (case val of Some x \<Rightarrow> x | None \<Rightarrow> ''true'') of
                   None \<Rightarrow> Inl (New (''invalid boolean value for -'' @ n))
                 | Some b \<Rightarrow> parseFlags formal args (acc(n \<mapsto> (if b then ''true'' else ''false''))))
            | Some False \<Rightarrow>
                (case val of
                   Some x \<Rightarrow> parseFlags formal args (acc(n \<mapsto> x))
                 | None \<Rightarrow>
                     (case args of
                        [] \<Rightarrow> Inl (New (''flag needs an argument: -'' @ n))
                      | x # rest \<Rightarrow> parseFlags formal rest (acc(n \<mapsto> x))))))))"

definition flagSubprocess :: "(string \<rightharpoonup> string) \<Rightarrow> bool" where
  "flagSubprocess flags = (flags ''subprocess'' = Some ''true'')"

definition flagScript :: "(string \<rightharpoonup> string) \<Rightarrow> string" where
  "flagScript flags = (case flags ''script'' of None \<Rightarrow> [] | Some s \<Rightarrow> s)"

text \<open>The test process: its test, the arguments k6 was executed with, the children it launched.\<close>

record integration =
  itest :: test
  executed :: "string list list"
  launched :: "(string \<times> string list) list"

record intlib =
  executeReturns :: bool
  Executable :: "string result"
  cmdRun :: "string \<Rightarrow> string list \<Rightarrow> goerror option"
  subtestName :: "string \<Rightarrow> string \<Rightarrow> string"
  toSlash :: "string \<Rightarrow> string"

definition k6Args :: "string \<Rightarrow> string list" where
  "k6Args script = [''k6'', ''--quiet'', ''--log-format=raw'', ''--summary-mode=disabled'', ''--no-usage-report'',
     ''--address=127.0.0.1:0'', ''--vus=1'', ''--iterations=1'', ''--no-thresholds'', ''--no-setup'', ''--no-teardown'',
     ''--no-color'', ''run'', script]"

text \<open>\<open>Execute\<close> normally ends the process; what follows it runs only when it returns.\<close>

definition runIntegrationSubprocess ::
    "intlib \<Rightarrow> (string \<rightharpoonup> string) \<Rightarrow> (integration \<Rightarrow> unit option \<times> integration) \<Rightarrow> integration \<Rightarrow> unit option \<times> integration" where
  "runIntegrationSubprocess il flags k s =
     (if \<not> flagSubprocess flags \<or> length (flagScript flags) = 0 then k s
      else
        (let s1 = s\<lparr>executed := executed s @ [k6Args (flagScript flags)]\<rparr>
         in if executeReturns il then k s1 else (None, s1)))"

definition childArgs :: "string \<Rightarrow> string \<Rightarrow> string list" where
  "childArgs name file = [''-test.run='' @ name, ''-subprocess'', ''-script='' @ file]"

definition ifatal :: "string \<Rightarrow> integration \<Rightarrow> unit option \<times> integration" where
  "ifatal msg s = (None, s\<lparr>itest := tbErrorf msg (itest s)\<rparr>)"

definition RunFileIntegration ::
    "intlib \<Rightarrow> (string \<rightharpoonup> string) \<Rightarrow> string \<Rightarrow> string \<Rightarrow> integration \<Rightarrow> unit option \<times> integration" where
  "RunFileIntegration il flags name file =
     runIntegrationSubprocess il flags (\<lambda>s.
       (let s1 = s\<lparr>itest := (itest s)\<lparr>attrs := attrs (itest s) @ [(''script'', file)]\<rparr>\<rparr> in
        case Executable il of
          Inl err \<Rightarrow> ifatal (''failed to get current executable: '' @ Error err) s1
        | Inr exe \<Rightarrow>
            (let s2 = s1\<lparr>launched := launched s1 @ [(exe, childArgs name file)]\<rparr>
             in case cmdRun il exe (childArgs name file) of
                  Some err \<Rightarrow> ifatal (''Subprocess exited with error: '' @ Error err) s2
                | None \<Rightarrow> (Some (), s2))))"

text \<open>Each file is a subtest; a subtest that ends the process ends the loop with it.\<close>

fun integrateFiles ::
    "intlib \<Rightarrow> (string \<rightharpoonup> string) \<Rightarrow> string \<Rightarrow> string list \<Rightarrow> integration \<Rightarrow> unit option \<times> integration" where
  "integrateFiles il flags name [] s = (Some (), s)"
| "integrateFiles il flags name (file # files) s =
     (let (r, s1) = RunFileIntegration il flags (subtestName il name (toSlash il file)) file (s\<lparr>itest := newTest\<rparr>);
          s2 = s1\<lparr>itest := (itest s)\<lparr>failed := (failed (itest s) \<or> failed (itest s1))\<rparr>\<rparr>
      in if length (executed s1) \<noteq> length (executed s) \<and> \<not> executeReturns il then (None, s2)
         else integrateFiles il flags name files s2)"

definition RunFilesIntegration ::
    "intlib \<Rightarrow> (string \<rightharpoonup> string) \<Rightarrow> string \<Rightarrow> string list \<Rightarrow> integration \<Rightarrow> unit option \<times> integration" where
  "RunFilesIntegration il flags name files =
     runIntegrationSubprocess il flags (\<lambda>s.
       if length files = 0 then ifatal ''no test files provided'' s else integrateFiles il flags name files s)"

definition RunGlobIntegration ::
    "(string \<Rightarrow> string list result) \<Rightarrow> golib \<Rightarrow> intlib \<Rightarrow> (string \<rightharpoonup> string) \<Rightarrow> string \<Rightarrow> string \<Rightarrow> integration \<Rightarrow>
     unit option \<times> integration" where
  "RunGlobIntegration Glob G il flags name glob =
     runIntegrationSubprocess il flags (\<lambda>s. case Glob glob of
       Inl err \<Rightarrow> ifatal (''glob '' @ Quote G glob @ '' failed: '' @ Error err) s
     | Inr files \<Rightarrow> RunFilesIntegration il flags name files s)"

section \<open>Modules and environment: lemmas\<close>

lemma registered_loop:
  "moduleLoop ty i (registeredExtensions xs) m t = (Some (m ++ (map_of (rev (map (\<lambda>(p, e). (p, AModule e)) xs)))), t)"
proof (induction xs arbitrary: i m)
  case (Cons x xs)
  obtain p e where x: "x = (p, e)" by (cases x)
  let ?r = "map_of (rev (map (\<lambda>(p, e). (p, AModule e)) xs))"
  have "moduleLoop ty i (registeredExtensions (x # xs)) m t =
      moduleLoop ty (i + 2) (registeredExtensions xs) (m(p \<mapsto> AModule e)) t"
    by (simp add: x registeredExtensions_def)
  then have "moduleLoop ty i (registeredExtensions (x # xs)) m t = (Some (m(p \<mapsto> AModule e) ++ ?r), t)"
    unfolding Cons .
  moreover have "map_of (rev (map (\<lambda>(p, e). (p, AModule e)) (x # xs))) = [p \<mapsto> AModule e] ++ ?r"
    by (simp add: x)
  moreover have "m(p \<mapsto> AModule e) ++ ?r = m ++ ([p \<mapsto> AModule e] ++ ?r)"
    by (simp add: map_add_assoc del: map_add_upd_left)
  ultimately show ?case by (simp only:)
qed (simp add: registeredExtensions_def)

lemma map_of_rev_distinct: "distinct (map fst xs) \<Longrightarrow> map_of (rev xs) = map_of xs"
  by (rule map_of_inject_set [THEN iffD2]) (simp_all add: rev_map [symmetric])

lemma Cut_pair: "CHR ''='' \<notin> set k \<Longrightarrow> Cut (k @ ''='' @ v) = (k, v, True)"
proof -
  assume "CHR ''='' \<notin> set k"
  then have "\<forall>c \<in> set k. c \<noteq> CHR ''=''" by auto
  then show ?thesis by (simp add: Cut_def)
qed

lemma envOf_append: "envOf (es @ [e]) = (case Cut e of (k, v, ok) \<Rightarrow> if ok then (envOf es)(k \<mapsto> v) else envOf es)"
  unfolding envOf_def by (cases "Cut e") simp

lemma envOf_pairs:
  "\<forall>(k, v) \<in> set kvs. CHR ''='' \<notin> set k \<Longrightarrow> envOf (map (\<lambda>(k, v). k @ ''='' @ v) kvs) = map_of (rev kvs)"
proof (induction kvs rule: rev_induct)
  case (snoc kv kvs)
  then show ?case by (cases kv) (simp add: envOf_append Cut_pair del: append_Cons)
qed (simp add: envOf_def)

section \<open>Verdicts: lemmas\<close>

text \<open>The history of a run that ended early, or of one that came to its end.\<close>

definition ranTo :: "event list \<Rightarrow> 'k testRun \<Rightarrow> unit option \<times> 'k testRun \<Rightarrow> bool" where
  "ranTo es s r \<longleftrightarrow> (case r of
       (None, s') \<Rightarrow> failed (tst s') \<and> (\<exists>n < length es. history s' = history s @ take n es)
     | (Some _, s') \<Rightarrow> history s' = history s @ es)"

lemma ranTo_state: "ranTo es (s\<lparr>vuState := x\<rparr>) r = ranTo es s r" "ranTo es (s\<lparr>tst := t\<rparr>) r = ranTo es s r"
  by (auto simp: ranTo_def split: prod.split option.split)

lemma orFatal_ranTo: "es \<noteq> [] \<Longrightarrow> ranTo es s (k s) \<Longrightarrow> ranTo es s (orFatal err msg k s)"
  by (cases err) (auto simp: orFatal_def ranTo_def tbErrorf_def tbFail_def intro: exI [of _ 0])

lemma orFatal_ranTo':
  "es \<noteq> [] \<Longrightarrow> history s' = history s @ [e] \<Longrightarrow> ranTo es s' (k s') \<Longrightarrow> ranTo (e # es) s (orFatal err msg k s')"
  by (cases err) (auto simp: orFatal_def ranTo_def tbErrorf_def tbFail_def split: option.splits intro: exI [of _ "Suc _"])

lemma callDefault_ranTo: "ranTo [DefaultCalled, EventLoopDone] s (callDefault h f x s)"
proof (cases "defaultFunction h x")
  case None
  then show ?thesis by (auto simp: callDefault_def ranTo_def tbErrorf_def tbFail_def intro: exI [of _ 0])
next
  case (Some fn)
  obtain err t where "callFunction h fn (tst s) = (err, t)" by fastforce
  then show ?thesis
    using Some by (simp add: callDefault_def happened_def)
      (rule orFatal_ranTo', simp_all add: ranTo_def happened_def)
qed

lemma ranTo_happened: "es \<noteq> [] \<Longrightarrow> ranTo es (happened e s) r \<Longrightarrow> ranTo (e # es) s r"
  by (auto simp: ranTo_def happened_def split: option.splits prod.splits intro: exI [of _ "Suc _"])

lemma fatal_ranTo: "es \<noteq> [] \<Longrightarrow> ranTo es s (orFatal (Some e) msg k s)"
  by (auto simp: orFatal_def ranTo_def tbErrorf_def tbFail_def intro: exI [of _ 0])

lemma panic_ranTo: "es \<noteq> [] \<Longrightarrow> ranTo es s (None, s\<lparr>tst := tbFail (tst s), crashed := True\<rparr>)"
  by (auto simp: ranTo_def tbFail_def intro: exI [of _ 0])

definition allEvents :: "event list" where
  "allEvents = [ProgramRun, MovedToVU, DefaultCalled, EventLoopDone]"

lemma runProgram_ranTo: "ranTo allEvents s (runProgram h f prog st s)"
proof -
  obtain err t where r: "RunProgram h prog (tst s) = (err, t)" by fastforce
  let ?rest = "\<lambda>s2. case moduleExports h of
      Inl e \<Rightarrow> orFatal (Some e) (f @ '': failed to get module.exports: '') (\<lambda>s. (Some (), s)) s2
    | Inr x \<Rightarrow> (case ToObject h x of
        None \<Rightarrow> (None, s2\<lparr>tst := tbFail (tst s2), crashed := True\<rparr>)
      | Some x \<Rightarrow> callDefault h f x s2)"
  have "ranTo [DefaultCalled, EventLoopDone] s2 (?rest s2)" for s2
    by (auto simp: fatal_ranTo callDefault_ranTo panic_ranTo split: sum.split option.split)
  then have "ranTo [MovedToVU, DefaultCalled, EventLoopDone] (s1\<lparr>vuState := Some st\<rparr>)
      (?rest (happened MovedToVU (s1\<lparr>vuState := Some st\<rparr>)))" for s1
    by (rule ranTo_happened [rotated]) simp
  then have "ranTo [MovedToVU, DefaultCalled, EventLoopDone] s1 (?rest (happened MovedToVU (s1\<lparr>vuState := Some st\<rparr>)))" for s1
    unfolding ranTo_state .
  note inner = this
  show ?thesis
    unfolding runProgram_def r allEvents_def Let_def case_prod_conv
  proof (rule orFatal_ranTo')
    show "history (happened ProgramRun (s\<lparr>tst := t\<rparr>)) = history s @ [ProgramRun]" by (simp add: happened_def)
  qed (simp, rule inner)
qed

lemma newTestRuntime_fails: "newTestRuntime h env pairs t = (None, t') \<Longrightarrow> failed t'"
proof -
  have loop: "moduleLoop ty i ps m t = (None, t') \<Longrightarrow> failed t'" for ty i m t t' and ps :: "'a anyValue list"
    by (induction ty i ps m t rule: moduleLoop.induct)
      (auto simp: tbFatalf_def tbErrorf_def tbFail_def split: anyValue.splits)
  show "newTestRuntime h env pairs t = (None, t') \<Longrightarrow> failed t'"
    by (auto simp: newTestRuntime_def requireNoError_def Let_def tbFatalf_def tbErrorf_def tbFail_def
        split: option.splits prod.splits dest: loop)
qed

text \<open>Without module pairs a script can import only \<open>k6/execution\<close>: \<open>RunFile\<close> by itself adds no registered extension.\<close>

lemma newTestRuntime_no_pairs:
  "newTestRuntime h environ [] t = (Some (m, env), t') \<Longrightarrow> m = [''k6/execution'' \<mapsto> newExecutionRoot]"
  by (auto simp: newTestRuntime_def requireNoError_def Let_def tbFatalf_def split: option.splits)

lemma RunFile_ranTo: "ranTo allEvents s (RunFile h env f pairs s)"
proof -
  let ?s0 = "s\<lparr>tst := (tst s)\<lparr>attrs := attrs (tst s) @ [(''script'', f)]\<rparr>\<rparr>"
  have ne: "allEvents \<noteq> []" by (simp add: allEvents_def)
  obtain r t where r: "newTestRuntime h env pairs (tst ?s0) = (r, t)" by fastforce
  show ?thesis
  proof (cases r)
    case None
    then show ?thesis
      using r newTestRuntime_fails [of h env pairs "tst ?s0" t]
      by (auto simp: RunFile_def Let_def ranTo_def allEvents_def intro: exI [of _ 0])
  next
    case (Some x)
    obtain st t1 where n: "newTestVUState h t = (st, t1)" by fastforce
    let ?s1 = "?s0\<lparr>tst := t1\<rparr>"
    let ?k = "\<lambda>s. case CompileFile h (fpDir h f) (fpBase h f) of
        Inl e \<Rightarrow> orFatal (Some e) (f @ '': compile failed: '') (\<lambda>s. (Some (), s)) s
      | Inr prog \<Rightarrow> runProgram h f prog st s"
    have "ranTo allEvents ?s1 (?k ?s1)"
      by (cases "CompileFile h (fpDir h f) (fpBase h f)") (simp_all add: fatal_ranTo [OF ne] runProgram_ranTo)
    then have "ranTo allEvents ?s1 (RunFile h env f pairs s)"
      unfolding RunFile_def Let_def r Some prod.case option.case n by (intro orFatal_ranTo ne)
    then show ?thesis by (simp add: ranTo_state)
  qed
qed

lemma newTestRuntime_env: "newTestRuntime h environ pairs t = (Some (mods, env), t') \<Longrightarrow> env = envOf environ"
  by (auto simp: newTestRuntime_def requireNoError_def Let_def tbFatalf_def split: option.splits prod.splits)

text \<open>
  The metrics of a test script: \<open>metrics.PushIfNotDone\<close> of k6 sends on the channel \<open>Samples\<close> unless the
  context is done, and nothing in the test runtime receives from it. \<open>None\<close> is a send that blocks.
\<close>

definition pushIfNotDone :: "'k libState \<Rightarrow> bool \<Rightarrow> nat \<Rightarrow> nat option" where
  "pushIfNotDone st ctxDone buffered = (if ctxDone then Some buffered
     else if buffered < SamplesCap st then Some (Suc buffered) else None)"

fun pushMany :: "'k libState \<Rightarrow> nat \<Rightarrow> nat \<Rightarrow> nat option" where
  "pushMany st 0 buffered = Some buffered"
| "pushMany st (Suc n) buffered = Option.bind (pushIfNotDone st False buffered) (pushMany st n)"

lemma pushMany_fits: "pushMany st n b = (if n + b \<le> SamplesCap st \<or> n = 0 then Some (n + b) else None)"
  by (induction n arbitrary: b) (auto simp: pushIfNotDone_def)

text \<open>A script that pushes a 1001st sample container never gets past it.\<close>

lemma test_samples_fill:
  "pushMany (fst (newTestVUState h t)) n 0 = (if n \<le> 1000 then Some n else None)"
  by (simp add: pushMany_fits newTestVUState_def maxTestSampleContainers_def)

lemma newTestRuntime_ok:
  "newTestRuntime h env pairs t = (Some (mods, e), t') \<Longrightarrow> moduleLoop (typeName h) 0 pairs Map.empty t = (Some m, t1) \<Longrightarrow>
   mods = m(''k6/execution'' \<mapsto> newExecutionRoot) \<and> e = envOf env"
  by (auto simp: newTestRuntime_def requireNoError_def Let_def tbFatalf_def split: option.splits)

lemma subtests_verdict: "failed (foldl (\<lambda>t r. subtest (snd r) t) t rs) \<longleftrightarrow> failed t \<or> (\<exists>r \<in> set rs. failed (tst (snd r)))"
  by (induction rs arbitrary: t) (auto simp: subtest_def tbFail_def)

lemma child_flags:
  assumes "formal ''test.run'' = Some False" "formal ''subprocess'' = Some True" "formal ''script'' = Some False"
  shows "parseFlags formal (childArgs name file) Map.empty =
    Inr [''test.run'' \<mapsto> name, ''subprocess'' \<mapsto> ''true'', ''script'' \<mapsto> file]"
  using assms by (simp add: childArgs_def splitFlag_def ParseBool_def)

section \<open>Properties\<close>

text \<open>
  C39. What a script finds: without explicit pairs it gets exactly the modules of the registered
  extensions, whatever the order in which Go ranges over them, except that \<open>k6/execution\<close> is always
  the stub of the test; and \<open>__ENV\<close> has the variables of the process, each entry cut at its first
  \<open>=\<close> sign, a later entry winning over an earlier one of the same name.
\<close>

theorem script_environment:
  assumes "distinct (map fst exts)" "\<forall>(k, v) \<in> set kvs. CHR ''='' \<notin> set k"
    and "modulePairsOrRegistered exts [] t = (Some pairs, t1)"
    and "newTestRuntime h (map (\<lambda>(k, v). k @ ''='' @ v) kvs) pairs t1 = (Some (mods, env), t2)"
  shows "mods = (map_option AModule \<circ> map_of exts)(''k6/execution'' \<mapsto> newExecutionRoot) \<and> env = map_of (rev kvs)"
proof -
  have p: "pairs = registeredExtensions exts" "t1 = t" using assms(3) by (simp_all add: modulePairsOrRegistered_def)
  have m: "map_of (rev (map (\<lambda>(p, e). (p, AModule e)) exts)) = map_option AModule \<circ> map_of exts"
  proof -
    have "map fst (map (\<lambda>(p, e). (p, AModule e)) exts) = map fst exts" by (induction exts) auto
    then have "map_of (rev (map (\<lambda>(p, e). (p, AModule e)) exts)) = map_of (map (\<lambda>(p, e). (p, AModule e)) exts)"
      using assms(1) by (intro map_of_rev_distinct) (simp only:)
    then show ?thesis by (simp add: map_of_map)
  qed
  from newTestRuntime_ok [OF assms(4), unfolded p, OF registered_loop] show ?thesis
    using envOf_pairs [OF assms(2)] m by simp
qed

text \<open>
  C38. The verdict on several files: every file is run as a subtest under its own name, also after one
  that failed; the test fails if and only if it had failed before or one of them does; and a subtest
  that has not failed has run its program, moved to the virtual user, called the default function
  and waited for the event loop, in this order. When no file can be run at all, or a script sets
  \<open>module.exports\<close> to \<open>null\<close> and so takes the test process down, the test fails.
\<close>

theorem test_files_verdict:
  "case RunFiles h exts env files pairs t of
     (None, t') \<Rightarrow> failed t'
   | (Some results, t') \<Rightarrow> files \<noteq> [] \<and> map fst results = map (fpToSlash h) files \<and>
       (failed t' \<longleftrightarrow> failed t \<or> (\<exists>r \<in> set results. failed (tst (snd r)))) \<and>
       list_all (\<lambda>r. failed (tst (snd r)) \<or> history (snd r) = allEvents) results"
proof -
  have fin: "failed (tst (snd r)) \<or> history (snd r) = allEvents" if "ranTo allEvents newTestRun r" for r
    using that by (cases r; cases "fst r") (auto simp: ranTo_def newTestRun_def)
  show ?thesis
    by (auto simp: RunFiles_def modulePairsOrRegistered_def tbFatalf_def tbErrorf_def tbFail_def Let_def subtests_verdict
        list_all_iff fin [OF RunFile_ranTo])
qed


section \<open>Witnesses\<close>

definition exHarness :: "(nat, nat, nat, nat, nat) harness" where
  "exHarness = \<lparr>setConsole = None, SetupModuleSystem = (\<lambda>_. None), setEnvVar = (\<lambda>_. None),
     objSet = (\<lambda>_ _. None), CompileFile = (\<lambda>_ _. Inr 0), RunProgram = (\<lambda>_ t. (None, t)), moduleExports = Inr 0, ToObject = Some,
     defaultFunction = Some, callFunction = (\<lambda>_ t. (None, t)), WaitOnRegistered = id, fpDir = id, fpBase = id,
     fpToSlash = id, typeName = (\<lambda>_. []), requireText = Error, DefaultSystemTagSet = 0,
     NewDialer = (\<lambda>_ _ _. 0), RegisterBuiltinMetrics = 0, NewVUStateTags = (\<lambda>_. 0), RootGroupPath = []\<rparr>"

theorem script_environment_witness:
  "\<exists>mods env t. newTestRuntime exHarness [''A=1=2''] (registeredExtensions [(''k6/x/tcp'', 7)]) newTest = (Some (mods, env), t) \<and>
     mods ''k6/x/tcp'' = Some (AModule 7) \<and> mods ''k6/execution'' = Some newExecutionRoot \<and> env ''A'' = Some ''1=2''"
proof -
  obtain mods env t where r: "newTestRuntime exHarness [''A=1=2''] (registeredExtensions [(''k6/x/tcp'', 7)]) newTest = (Some (mods, env), t)"
    by (simp add: newTestRuntime_def exHarness_def requireNoError_def registered_loop Let_def)
  then have "mods = (map_option AModule \<circ> map_of [(''k6/x/tcp'', 7)])(''k6/execution'' \<mapsto> newExecutionRoot) \<and>
      env = map_of (rev [(''A'', ''1=2'')])"
    by (intro script_environment [of _ _ newTest "registeredExtensions [(''k6/x/tcp'', 7)]" newTest])
      (simp_all add: modulePairsOrRegistered_def)
  then show ?thesis using r by (auto simp: exHarness_def)
qed

definition exFormal :: "string \<Rightarrow> bool option" where
  "exFormal = [''test.run'' \<mapsto> False, ''subprocess'' \<mapsto> True, ''script'' \<mapsto> False]"

definition exIntegration :: intlib where
  "exIntegration = \<lparr>executeReturns = False, Executable = Inr ''/tmp/script.test'', cmdRun = (\<lambda>_ _. None),
     subtestName = (\<lambda>a b. a @ ''/'' @ b), toSlash = id\<rparr>"


end
