(* ===== verification/Spec2Isabelle.thy ===== *)
theory Spec2Isabelle
  imports Reader EchoFixtures WithEcho EchoHTTP TestRun
begin

text \<open>
  A verification development for \<^emph>\<open>xk6-tcp\<close>, the k6 extension that gives test scripts raw TCP
  sockets, and for the tools in its repository: the echo servers, the command \<open>with-echo\<close> and the
  runner of test scripts.

  \<^bold>\<open>The program.\<close> A script constructs a \<open>Socket\<close> (\<open>src/tcp/module.go\<close>, \<open>socket_base.go\<close>), registers
  handlers (\<open>socket_on.go\<close>), and calls \<open>connect\<close>, \<open>write\<close>, \<open>setTimeout\<close> and \<open>destroy\<close>. Each \<open>connect\<close> and
  \<open>write\<close> starts a goroutine that settles a promise; a successful \<open>connect\<close> also starts the reader
  (\<open>socket_read.go\<close>), and the constructor starts the goroutine (\<open>socket_loop.go\<close>) that hands callbacks
  from a channel to the event loop of the virtual user. They share the struct \<open>socket\<close> under a mutex and
  a \<open>sync.Once\<close>. Beside them, \<open>src/internal/echo\<close> has a TCP and an HTTP echo server, \<open>src/tools/with-echo\<close>
  runs a command beside these servers, and \<open>src/internal/testscript\<close> runs scripts as Go tests.

  \<^bold>\<open>Theories.\<close>
  \<^item> \<open>Prelude\<close>: bytes, 64-bit integers, strings, errors, times, and the locale \<open>transition_system\<close> whose
    interpretations carry every invariant of a machine; and the type \<open>run\<close> of calls that may block for ever.
  \<^item> \<open>Ledger\<close>: obligations that goroutines hand on and discharge exactly once, and the counting of
    goroutines; shared by the machine of a socket and that of the echo server.
  \<^item> \<open>Codec\<close>: \<open>encoding/base64\<close> and \<open>encoding/hex\<close> of the Go library as far as \<open>write\<close> uses them, with a
    locale for codecs interpreted on the three base64 alphabets.
  \<^item> \<open>Socket\<close>: the struct \<open>socket\<close> as a record, its states and accessors, the record \<open>vu\<close> of what k6 and the
    network do, the effects outside the socket (network calls, samples, callbacks, settled promises,
    goroutines started) as lists in the record \<open>rt\<close>, and the invariant \<open>sock_inv\<close>.
  \<^item> \<open>Metrics\<close> (\<open>metrics.go\<close>, \<open>socket_metrics.go\<close>), \<open>Dispatch\<close> (\<open>socket_on.go\<close>), \<open>Connect\<close>
    (\<open>socket_connect.go\<close>, \<open>socket_timeout.go\<close>), \<open>Write\<close> (\<open>socket_write.go\<close>), \<open>Read\<close> (\<open>socket_read.go\<close>),
    \<open>Module\<close> (\<open>module.go\<close>, \<open>register.go\<close>, the constructor): the operations, one definition each, over an
    explicit state. An operation that fires an event may block: the \<open>select\<close> of \<open>fireAndCleanup\<close> has three outcomes
    (the loop goroutine receives the callback, the virtual user is done, or neither ever happens), chosen by
    the field \<open>SelectSend\<close> of \<open>vu\<close>, and \<open>Blocks s\<close> is the call that stays there, with the state it left.
  \<^item> \<open>Machine\<close>: all goroutines of one socket as the step relation \<open>step\<close>; a step is a piece of the code
    between two points where another goroutine can come in (the mutex, the \<open>Once\<close>, the channel, the
    network). \<open>Lifecycle\<close>: its invariants, progress, and the order of events. \<open>Refine\<close>: the sequential
    operations are uninterrupted runs of the machine, and the machine refines the life-cycle automaton.
    \<open>Reader\<close>: the same of the read loop. \<open>Buffers\<close>: which callback holds which pooled buffer of the reader.
  \<^item> \<open>EchoTCP\<close> (\<open>server_tcp.go\<close>): one connection of the TCP echo server, and its goroutines as a machine, in
    which the clients and the deadlines of the connections make blocked reads and writes return.
    \<open>Echo\<close> (\<open>server.go\<close>, and what callers see of the two servers), \<open>EchoHTTP\<close> (the handler of
    \<open>server_http.go\<close>), \<open>WithEcho\<close> (\<open>main.go\<close>).
  \<^item> \<open>RoundTrip\<close>: a socket and the TCP echo server together: the machine of the socket, one connection of the
    server, and the byte streams between them, as one step relation.
  \<^item> \<open>TestConsole\<close> (\<open>console.go\<close>, \<open>execution.go\<close>) and \<open>TestRun\<close> (\<open>run.go\<close>, \<open>runtime.go\<close>, \<open>integration.go\<close>).
  \<^item> \<open>Fixtures\<close>, \<open>EchoFixtures\<close>: concrete environments and runs on which the properties are applied.

  \<^bold>\<open>Parameters.\<close> Code that is not part of the repository is an argument: k6 (tag sets, dialer, contexts,
  the event loop) and the network in the record \<open>vu\<close>, the JavaScript engine in \<open>sobek\<close> and \<open>jsvalues\<close>, the
  operating system in \<open>oslib\<close> and \<open>cmdlib\<close>, the test runtime of k6 in \<open>harness\<close>. A function of these
  records gets the number of calls made before, so that it may answer the same call differently each time. What a
  property needs of them is a named hypothesis (\<open>pool_law\<close>, \<open>writer_bounds\<close>, \<open>io_writer\<close>, \<open>tagset_laws\<close>,
  \<open>string_laws\<close>) that states documented behaviour and holds of the fixtures.

  \<^bold>\<open>What is shown.\<close> For every interleaving of the goroutines of a socket: consistency whenever the mutex is
  free, a single teardown, promises settled exactly once, buffers of pending callbacks left alone, reader
  events after \<open>connect\<close>, no deadlock while callbacks are taken, and the situations in which the code does wait for ever; and, together with the echo
  server, that a script is given back the bytes it wrote, in order and without loss. For the operations
  by themselves: data integrity and termination of the reader, what a write delivers and counts, the
  codecs, the outcome of \<open>connect\<close> with TLS, the bounds of \<open>setTimeout\<close>, the effects of \<open>destroy\<close>, tags, and
  the constructor; each says what is left when an event finds nobody to receive it and the operation blocks. For the echo servers: connections closed exactly once, \<open>Stop\<close> final and terminating
  (because of the deadlines; a deadline that could not be set is the exception), faithful echo, all-or-nothing
  construction, the exported environment, the HTTP answer. For \<open>with-echo\<close>: exit status, clean-up, and signals. For the test runner: verdicts, the modules and the environment of a
  script (in which it finds the echo servers), and the child process of an integration test.

  \<^bold>\<open>Bounds and termination.\<close> The lengths and counters of the socket are 64-bit words where Go has \<open>int64\<close>, so
  that wrap-around is part of the model; the write loop is a \<open>function\<close> with a termination proof. The read
  loop runs over a script of what the network and the other goroutines do: a script that ends leaves the
  goroutine blocked in \<open>conn.Read\<close>, which the result says. The same holds of \<open>io.Copy\<close> in \<open>EchoTCP\<close>. No fuel
  is used.

  \<^bold>\<open>Not modelled.\<close> A constructor argument that is \<open>null\<close> or \<open>undefined\<close> (the options are then a nil pointer, which
  the first use of \<open>tags\<close> dereferences); log messages of the extension (the echo servers' and the command's are,
  without their attributes); the wiring of standard streams; what the constructors of k6 that \<open>newTestVUState\<close> calls build; the
  scheduling of the virtual user's event loop beyond the order in which it runs callbacks; memory reuse
  after a pooled buffer is returned; \<open>String\<close> methods and declarations that only name types.
\<close>

section \<open>All interleavings of the goroutines of a socket\<close>

text \<open>
  C1. In every world the goroutines of a socket can reach, a script that reads the socket while
  the mutex is free finds it consistent: open only with a connection, destroyed only without one,
  its handlers callables of known events, its context cancelled exactly when teardown is done;
  and it never sees the state \<open>opening\<close>, which exists only while the mutex is held.
\<close>

theorem free_mutex_consistent:
  assumes "reachable G v sb m w" "lock w = None"
  shows "sock_inv (sk w) \<and> readyState (sk w) \<noteq> ''opening''"
proof -
  have inv: "mach_inv w" using machine.reach_inv [OF assms(1)] .
  then have "state (sk w) \<noteq> Opening" using lock_inv_free assms(2) mach_invD(2) by blast
  then show ?thesis
    using mach_invD(3) [OF inv] by (cases "state (sk w)") (auto simp: held_inv_sock_inv readyState_def)
qed

theorem free_mutex_consistent_witness:
  "sock_inv (sk run13) \<and> readyState (sk run13) \<noteq> ''opening''"
  by (rule free_mutex_consistent [OF run13_reach(2) run13_fields(5)])

text \<open>
  C2. Teardown happens at most once: whatever the number of calls of \<open>destroy\<close> and of readers
  that end, one goroutine at a time is inside \<open>destroyOnce\<close>, at most one \<open>close\<close> event is
  ever queued, and once the \<open>Once\<close> is done nobody is inside any more.
\<close>

theorem teardown_once:
  assumes "reachable G v sb m w"
  shows "closes (sk w) \<le> 1 \<and> (stage (pcs w i) \<noteq> Out \<and> stage (pcs w j) \<noteq> Out \<longrightarrow> i = j) \<and>
    (destroyOnce (sk w) \<longrightarrow> stage (pcs w i) = Out)"
proof -
  have inv: "mach_inv w" using machine.reach_inv [OF assms] .
  note once = once_invD [OF mach_invD(4) [OF inv]]
  have "destroyOnce (sk w) \<longleftrightarrow> onceSt w = OnceDone"
    using mach_invD(3) [OF inv] once(2) by (simp add: held_inv_def)
  then show ?thesis
    using once(3) once(1) [of i] once(1) [of j] by auto
qed

theorem teardown_once_witness: "closes (sk hang8) \<le> 1 \<and> stage (pcs hang8 0) = Out"
  using teardown_once [OF hang8_reach, of 0 0] by (simp add: hang8_def)

text \<open>
  C3. Every promise that \<open>connect\<close> or \<open>write\<close> handed out is settled at most once, and as long
  as it is not settled exactly one goroutine is still going to settle it: none is forgotten and
  none is settled twice, in any interleaving.
\<close>

theorem promises_settled_once:
  assumes "reachable G v sb m w"
  shows "distinct (map fst (settled (sk w))) \<and>
    (p < promised w \<longrightarrow> (p \<in> fst ` set (settled (sk w))) \<noteq> (\<exists>!i. owes (pcs w i) = Some p))"
proof -
  have l: "ledger (owes \<circ> pcs w) (map fst (settled (sk w))) (promised w)"
    using machine.reach_inv [OF assms] mach_invD(5) promise_inv_def by blast
  then show ?thesis using ledger_owner [OF l, of p] by (simp add: ledger_def)
qed

theorem promises_settled_once_witness:
  "distinct (map fst (settled (sk run13))) \<and> (0 \<in> fst ` set (settled (sk run13))) \<noteq> (\<exists>!i. owes (pcs run13 i) = Some 0)"
proof -
  have "promised run13 = 1"
    by (simp add: run13_def run12_def run11_def run10_def run9_def run8_def run7_def run6_def run5_def run4_def run3_def)
  then show ?thesis using promises_settled_once [OF run13_reach(2), of 0] by simp
qed

text \<open>
  C4. The events of a connection's reader come after its \<open>connect\<close> event: when a \<open>connect\<close>
  handler is registered before anything else and the virtual user is still running, every
  \<open>data\<close> event, \<open>timeout\<close> event and read error that was queued has a \<open>connect\<close> event queued
  before it.
\<close>

theorem connect_event_first:
  assumes "reach (listening m) (step G v sb) w" "\<not> vuDone w"
    and "sent (sk w) = before @ cb # later" "reader_event cb"
  shows "\<exists>c \<in> set before. cbEvent c = ''connect''"
proof -
  have "order_inv w" using ordered.reach_inv [OF assms(1)] by blast
  then have "after_connect False (sent (sk w))" using assms(2) by (simp add: order_inv_def)
  then show ?thesis using assms(3,4) after_connect_prefix by metis
qed

theorem connect_event_first_witness: "\<exists>c \<in> set [exConnectCb]. cbEvent c = ''connect''"
  by (rule connect_event_first [OF run13_reach(1) run13_fields(3), of _ exDataCb "[]"])
    (simp_all add: run13_fields reader_event_def exDataCb_def)



text \<open>
  C6. End to end: a script that talks to the TCP echo server over one connection is given back what it
  sent. In every interleaving of its goroutines with the server and with the network, as long as
  \<open>connect\<close> was called once and the virtual user runs, the bytes that its \<open>data\<close> handlers have been
  given, followed by those that wait in the queue, are a prefix of the bytes the reader got, these of
  what the server echoed, and these of what the calls of \<open>write\<close> put on the wire; and none is lost in
  between: with no event on offer, what was read is exactly what was handled and what is queued.
\<close>

theorem echo_round_trip:
  assumes "reach (\<lambda>x. x = talkStart m h) (talk G v sb c) x" "pool_law v"
    and "\<not> vuDone (client x)" "connects (sk (client x)) \<le> 1"
  shows "prefix (seen x @ queued (client x)) (incoming x) \<and> prefix (incoming x) (fst (io_Copy (served x))) \<and>
    prefix (fst (io_Copy (served x))) (uploaded c (net (sk (client x)))) \<and>
    ((\<forall>i. offers (pcs (client x) i) = None) \<longrightarrow> incoming x = seen x @ queued (client x))"
proof -
  note inv = session_facts [OF assms(1,2)]
  have "prefix (fst (io_Copy (served x))) (uploaded c (net (sk (client x))))"
    using inv io_Copy_prefix [of "served x"] prefix_order.trans by (fastforce simp: session_inv_def)
  moreover have f: "flow (incoming x) (seen x) (client x)" using inv assms(3,4) by (simp add: session_inv_def calm_def)
  moreover have "incoming x = seen x @ queued (client x)" if "\<forall>i. offers (pcs (client x) i) = None"
    using f that offered_offers inv by (fastforce simp: flow_def session_inv_def)
  ultimately show ?thesis using flow_prefix [OF f] inv by (simp add: session_inv_def)
qed

theorem echo_round_trip_witness:
  "prefix (seen heard @ queued (client heard)) (incoming heard) \<and>
   prefix (incoming heard) (uploaded (RawConn 0) (net (sk (client heard)))) \<and> seen heard = [10, 20, 30]"
  using echo_round_trip [OF heard_reach exVU_pool heard_fields(1)] heard_fields(2,4) prefix_order.trans by fastforce

text \<open>
  C7. No deadlock between the goroutines of a socket: while the socket's loop goroutine takes
  callbacks, or the context of the virtual user is done, some goroutine that has not finished can
  take a step whenever there is one, whoever holds the mutex or is inside \<open>destroyOnce\<close>.
\<close>

theorem no_deadlock:
  assumes "reachable G v sb m w" "loopAlive w \<or> vuDone w" "\<not> idle (pcs w i)"
  shows "\<exists>j. can_move G v sb w j"
  using progress_inv [OF machine.reach_inv [OF assms(1)] assms(2,3)] .

theorem no_deadlock_witness: "\<exists>j. can_move exGolib exVU exSobek run13 j"
  by (rule no_deadlock [OF run13_reach(2), of 2]) (simp_all add: run13_fields)

text \<open>
  After teardown the socket's loop goroutine is gone, and a goroutine that then fires an event
  with a handler stays in the \<open>select\<close> of \<open>fireAndCleanup\<close>, whatever the others do, until the
  context of the virtual user is done.
\<close>

theorem sender_without_receiver:
  assumes "\<not> loopAlive w" "pcs w i = Sending cb k" "(step G v sb)\<^sup>*\<^sup>* w w'" "\<not> vuDone w'"
  shows "pcs w' i = Sending cb k \<and> sent (sk w') = sent (sk w)"
  using stuck_steps [OF assms(3,1,2,4)] silent_steps [OF assms(3,1,4)] by blast

theorem sender_without_receiver_witness:
  "let w' = onSock (on ''timeout'' 4) hang8 in
     pcs w' 1 = Sending exConnectCb (ConnSpawn 0 exTags) \<and> sent (sk w') = sent (sk hang8)"
proof -
  have "exStep hang8 (onSock (on ''timeout'' 4) hang8)" by (rule js_on) (simp add: hang8_def)
  then have "exStep\<^sup>*\<^sup>* hang8 (onSock (on ''timeout'' 4) hang8)" by blast
  moreover have "\<not> vuDone (onSock (on ''timeout'' 4) hang8)" by (simp add: hang8_def hang6_def hang4_fields)
  ultimately show ?thesis using sender_without_receiver [OF hang8_fields(2,1)] by (simp only: Let_def)
qed

text \<open>
  C8. The \<open>close\<close> event can overtake the \<open>connect\<close> event for good: a world is reachable in which the script
  has called \<open>connect\<close> (with promise 0) and \<open>destroy\<close>, the goroutine of \<open>connect\<close> still offers its
  \<open>connect\<close> event and \<open>close\<close> is the only event queued; and whatever happens from there, as long as the
  virtual user runs, the goroutine stays in its offer, no event is queued any more, \<open>connect\<close> neither, and the
  promise of \<open>connect\<close> is not settled.
\<close>

theorem close_overtakes_connect:
  "\<exists>(w :: (nat, strmap) world) i cb ts. reachable exGolib exVU exSobek exMetrics w \<and> \<not> vuDone w \<and>
     GoConnect 0 \<in> set (spawned (sk w)) \<and> pcs w i = Sending cb (ConnSpawn 0 ts) \<and> cbEvent cb = ''connect'' \<and>
     map cbEvent (sent (sk w)) = [''close''] \<and>
     (\<forall>w'. exStep\<^sup>*\<^sup>* w w' \<and> \<not> vuDone w' \<longrightarrow>
        pcs w' i = Sending cb (ConnSpawn 0 ts) \<and> map cbEvent (sent (sk w')) = [''close''] \<and>
        0 < promised w' \<and> 0 \<notin> fst ` set (settled (sk w')))"
proof (intro exI conjI allI impI)
  show "\<not> vuDone hang8" by (simp add: hang8_def hang6_def hang4_fields)
  show "map cbEvent (sent (sk hang8)) = [''close'']" by (simp add: hang8_fields exCloseCb_def)
  show "cbEvent exConnectCb = ''connect''" by (simp add: exConnectCb_def)
  fix w' :: "(nat, strmap) world"
  assume a: "exStep\<^sup>*\<^sup>* hang8 w' \<and> \<not> vuDone w'"
  then show pc: "pcs w' 1 = Sending exConnectCb (ConnSpawn 0 exTags)"
    using stuck_steps [OF _ hang8_fields(2,1)] by blast
  have "sent (sk w') = sent (sk hang8)" using a silent_steps [OF _ hang8_fields(2)] by blast
  then show "map cbEvent (sent (sk w')) = [''close'']" by (simp add: hang8_fields exCloseCb_def)
  have o: "(owes \<circ> pcs w') 1 = Some 0" using pc by simp
  have "ledger (owes \<circ> pcs w') (map fst (settled (sk w'))) (promised w')"
    using a machine.steps_inv machine.reach_inv [OF hang8_reach] mach_invD(5) promise_inv_def by blast
  from ledger_unpaid [OF this, of 1 0] o show "0 < promised w'" "0 \<notin> fst ` set (settled (sk w'))" by simp_all
qed (rule hang8_reach hang8_connect hang8_fields)+

theorem close_overtakes_connect_witness:
  "\<exists>w :: (nat, strmap) world. reachable exGolib exVU exSobek exMetrics w \<and> GoConnect 0 \<in> set (spawned (sk w)) \<and>
     map cbEvent (sent (sk w)) = [''close''] \<and> 0 < promised w \<and> 0 \<notin> fst ` set (settled (sk w))"
  using close_overtakes_connect
proof (elim exE conjE)
  fix w :: "(nat, strmap) world" and i cb ts
  assume w: "reachable exGolib exVU exSobek exMetrics w" "map cbEvent (sent (sk w)) = [''close'']" "\<not> vuDone w"
      "GoConnect 0 \<in> set (spawned (sk w))"
    and later: "\<forall>w'. exStep\<^sup>*\<^sup>* w w' \<and> \<not> vuDone w' \<longrightarrow>
      pcs w' i = Sending cb (ConnSpawn 0 ts) \<and> map cbEvent (sent (sk w')) = [''close''] \<and>
      0 < promised w' \<and> 0 \<notin> fst ` set (settled (sk w'))"
  have "0 < promised w \<and> 0 \<notin> fst ` set (settled (sk w))" using later [rule_format, of w] w(3) by blast
  with w show ?thesis by (intro exI [of _ w]) simp
qed

text \<open>
  C9. A script can block itself: with an \<open>error\<close> handler registered, a \<open>write\<close> whose argument is
  refused, called after \<open>destroy\<close>, leaves the event loop of the virtual user waiting for the dead
  loop goroutine as long as the virtual user runs.
\<close>

theorem script_blocks_itself:
  assumes "writePrepare G sb a wo = (Inl e, opts)"
  shows "\<exists>w :: ('h, 'ts) world. reachable G v sb m w \<and> \<not> vuDone w \<and>
    (\<forall>w'. (step G v sb)\<^sup>*\<^sup>* w w' \<and> \<not> vuDone w' \<longrightarrow> (\<exists>cb k. pcs w' 0 = Sending cb k))"
proof -
  obtain w :: "('h, 'ts) world" and cb k where
    w: "reachable G v sb m w" "\<not> vuDone w" "\<not> loopAlive w" "pcs w 0 = Sending cb k"
    using blocked_script [OF assms, where v = v and m = m] by blast
  then show ?thesis using stuck_steps [OF _ w(3,4)] by blast
qed

theorem script_blocks_itself_witness:
  "\<exists>w :: (nat, strmap) world. reachable exGolib exVU exSobek exMetrics w \<and> \<not> vuDone w \<and> (\<exists>cb k. pcs w 0 = Sending cb k)"
proof -
  have "writePrepare exGolib exSobek (VInt 1) None = (Inl (Errorf '''' errInvalidType '': String or ArrayBuffer expected''),
      \<lparr>Encoding = '''', woTags = []\<rparr>)"
    by (simp add: writePrepare_def stringOrArrayBuffer_def exSobek_def)
  from script_blocks_itself [OF this, where v = exVU and m = exMetrics] show ?thesis
    by (blast intro: rtranclp.rtrancl_refl)
qed

section \<open>The sequential operations and the machine\<close>

text \<open>
  C10. The life cycle: seen through its state alone, every step of every goroutine is a step of a
  small automaton, or leaves the state alone. An attempt to connect begins in a settled state (also
  in \<open>destroyed\<close>) and ends \<open>open\<close> or \<open>disconnected\<close>; a socket is never destroyed in the middle of
  an attempt.
\<close>

theorem lifecycle_refined:
  assumes "reachable G v sb m w" "step G v sb w w'"
  shows "state (sk w') = state (sk w) \<or> edge (state (sk w)) (state (sk w'))"
  using lifecycle_step [OF assms(2)] machine.reach_inv [OF assms(1)] mach_invD(2) by blast

theorem lifecycle_refined_witness: "edge (state (sk run3)) (state (sk run4)) \<and> edge (state (sk run5)) (state (sk run6))"
proof -
  have r3: "reachable exGolib exVU exSobek exMetrics run3" by (rule reach_step [OF run2_reach(2) run3_step])
  have r5: "reachable exGolib exVU exSobek exMetrics run5"
    by (rule reach_step [OF reach_step [OF r3 run4_step] run5_step])
  have "state (sk run4) \<noteq> state (sk run3)" by (simp add: run4_def run3_def run2_def start_def newSocket_def go_def on_def)
  moreover have "state (sk run6) \<noteq> state (sk run5)"
    by (simp add: run6_socket) (simp add: run5_def addDurationMetricsFor_fields resolve_def run4_def split: sum.split)
  ultimately show ?thesis
    using lifecycle_refined [OF r3 run4_step] lifecycle_refined [OF r5 run6_step] by simp
qed

text \<open>
  C11. The definition of \<open>connect\<close>'s goroutine is a run of the machine: started with the mutex free
  and while the loop goroutine takes callbacks, the goroutine can run to its end undisturbed; the
  socket is then the one the sequential definition gives, the mutex is free again, and there is a
  reader exactly when the attempt succeeded.
\<close>

theorem connect_is_a_run:
  assumes "attended v w" "pcs w i = ConnStart p" "lock w = None" "connectOpts (sk w) = Some co"
    and "pcs w j = Unused"
  shows "\<exists>w'. runs G v sb w w' \<and> pcs w' i = Ended \<and> lock w' = None \<and> connectGoroutine v p (sk w) = Returns () (sk w') \<and>
    (pcs w' j = ReadHead \<longleftrightarrow> (\<exists>s'. connectExecute v (sk w) = Returns None s'))"
proof -
  have "i \<noteq> j" using assms(2,5) by auto
  then show ?thesis by (rule connect_runs [OF assms])
qed

theorem connect_is_a_run_witness:
  "\<exists>w'. runs exGolib exVU exSobek run3 w' \<and> pcs w' 1 = Ended \<and> connectGoroutine exVU 0 (sk run3) = Returns () (sk w')"
proof -
  have "attended exVU run3" by (simp add: attended_def exVU_select) (simp add: run3_def run2_def start_def)
  from connect_is_a_run [OF this run3_fields(1,3,4,2), of exGolib exSobek] show ?thesis by blast
qed

text \<open>
  The same of \<open>write\<close> and of teardown: a writer that is not disturbed between its calls of the
  connection leaves the socket \<open>writeGoroutine\<close> gives, and the first \<open>destroy\<close> leaves the socket
  \<open>destroy\<close> gives and returns to where it was called.
\<close>

theorem write_and_destroy_are_runs:
  assumes "lock w = None" "pcs w i = WriteStart p data opts" "attended v w" "pcs w j = DestroyEnter k"
    and "onceSt w = Fresh" "\<not> destroyOnce (sk w)"
  shows "runs G v sb w (goto i Ended (w\<lparr>sk := writeGoroutine v p data opts (sk w)\<rparr>)) \<and>
    runs G v sb w (goto j k (w\<lparr>onceSt := OnceDone, sk := stateOf (destroy v (sk w))\<rparr>))"
  using write_runs [OF assms(2,1)] destroy_runs [OF assms(3,4,1,5,6)] by blast

theorem write_and_destroy_are_runs_witness:
  "let w = goto 1 (WriteStart 0 [1] \<lparr>Encoding = [], woTags = []\<rparr>) (goto 0 (DestroyEnter JSReady) run7) in
   runs exGolib exVU exSobek w (goto 0 JSReady (w\<lparr>onceSt := OnceDone, sk := stateOf (destroy exVU (sk run7))\<rparr>))"
proof -
  let ?w = "goto 1 (WriteStart 0 [1] \<lparr>Encoding = [], woTags = []\<rparr>) (goto 0 (DestroyEnter JSReady) run7)"
  have "attended exVU ?w" by (simp add: attended_def exVU_select run7_fields)
  moreover have "\<not> destroyOnce (sk ?w)"
    by (simp add: run7_def run6_def step_frames dialed_frames [OF prod.collapse [symmetric]])
      (simp add: run5_def resolving_frames [OF prod.collapse [symmetric]] run4_def run3_def run2_def start_def newSocket_def)
  ultimately show ?thesis
    using write_and_destroy_are_runs [of ?w 1 0 "[1]" "\<lparr>Encoding = [], woTags = []\<rparr>" exVU 0 JSReady exGolib exSobek]
    by (simp add: run7_fields Let_def)
qed

text \<open>
  C12. The reader of the sequential theory is the reader of the machine: over any chunks the network delivers
  (none larger than the buffer of 4096 bytes) an undisturbed reader runs from the head of its loop to the
  socket that \<open>read\<close> gives. When the loop ended, the deferred \<open>destroy\<close> has run and the goroutine is
  over; otherwise it is back at the head of the loop.
\<close>

theorem read_is_a_run:
  assumes "attended v w" "pcs w i = ReadHead" "lock w = None" "\<forall>r \<in> set rs. length (fst r) \<le> 4096"
    and "onceSt w = (if destroyOnce (sk w) then OnceDone else Fresh)"
  shows "\<exists>w' ended. runs G v sb w w' \<and> read v (map undisturbed rs) (sk w) = Returns ended (sk w') \<and>
    pcs w' i = (if ended then Ended else ReadHead)"
proof -
  obtain ended s' where r: "read v (map undisturbed rs) (sk w) = Returns ended s'"
    using read_returns [OF attended_attentive [OF assms(1)], of "map undisturbed rs" "sk w"]
    by (cases "read v (map undisturbed rs) (sk w)") auto
  let ?w' = "goto i (if ended then Ended else ReadHead) (w\<lparr>onceSt := (if ended then OnceDone else onceSt w), sk := s'\<rparr>)"
  have "runs G v sb w ?w'" by (rule read_runs [OF assms r])
  then show ?thesis by (intro exI [of _ ?w'] exI [of _ ended]) (simp add: r)
qed

theorem read_is_a_run_witness:
  "\<exists>w'. runs exGolib exVU exSobek run9 w' \<and> pcs w' 2 = Ended \<and>
     read exVU (map undisturbed [([1, 2], None), ([], Some EOF)]) (sk run9) = Returns True (sk w')"
proof -
  let ?rs = "[([1, 2], None), ([], Some EOF)] :: (byte list \<times> goerror option) list"
  have at: "attended exVU run9" "pcs run9 2 = ReadHead" "lock run9 = None"
    by (simp_all add: attended_def exVU_select run9_def run8_def run7_def run6_fields)
  have o: "\<not> destroyOnce (sk run9)" "onceSt run9 = Fresh"
    by (simp_all add: run9_def run8_def run7_def) (simp_all add: run6_def step_frames dialed_frames [OF prod.collapse [symmetric]],
        simp_all add: run5_def resolving_frames [OF prod.collapse [symmetric]] run4_def run3_def run2_def start_def newSocket_def)
  have "\<exists>w' ended. runs exGolib exVU exSobek run9 w' \<and> read exVU (map undisturbed ?rs) (sk run9) = Returns ended (sk w') \<and>
      pcs w' 2 = (if ended then Ended else ReadHead)"
    by (rule read_is_a_run [OF at]) (use o in simp_all)
  moreover have "read exVU (map undisturbed ?rs) (sk run9) = Returns ended t \<Longrightarrow> ended" for ended t
    using read_ends [of "map undisturbed ?rs" exVU "sk run9"] by (simp add: undisturbed_def stream_end_def)
  ultimately show ?thesis by (metis (full_types))
qed

section \<open>Reading\<close>

text \<open>
  C13. Data integrity: with a \<open>data\<close> handler, an event loop that takes callbacks and a pool that
  hands a buffer to one owner at a time, the callbacks queued by the read loop hold exactly the
  bytes that arrived, in order, each in its own buffer, up to the read that ended the stream, and
  \<open>bytes_read\<close> grows by their number.
\<close>

theorem data_integrity:
  assumes "pool_law v" "\<And>t. SelectSend v t = Received" "\<forall>i \<in> set items. quiet i"
    and "state s = Open" "conn s = Some c" "handlers s ''data'' = Some (Callable fn)"
    and "t = stateOf (readLoop v items s)"
  shows "(\<exists>cs. sent t = sent s @ cs \<and> concat (map (payload (heap t)) cs) = concat (map rBytes (consumed items))) \<and>
    bytesRead t = bytesRead s + of_nat (length (concat (map rBytes (consumed items))))"
  using readLoop_delivers [OF assms(1-6)] unfolding assms(7) delivers_def bytesRead_def by blast

theorem data_integrity_witness:
  "bytesRead (stateOf (readLoop exVU exItems exOpen)) = bytesRead exOpen + 3"
  using data_integrity [OF exVU_pool exVU_select(1) exItems_simps(1) exOpen_fields(1,2) _ refl, of 7]
  by (simp add: exOpen_fields exItems_simps)

text \<open>
  C14. The reader ends and cleans up: as soon as a read reports the end of the stream, or an error
  that is no timeout, the read loop returns and the deferred \<open>destroy\<close> has run, whatever the other
  goroutines did to the socket while the reader was blocked. The only exception is a reader that is stuck
  earlier, in the \<open>select\<close> of an event that has a handler while nobody receives and the virtual user
  runs, as after a \<open>destroy\<close> during its \<open>Read\<close>.
\<close>

theorem reader_ends:
  assumes "i \<in> set items" "rErr i = Some e" "errors_Is e EOF \<or> \<not> is_timeout e"
  shows "case read v items s of
      Returns ended t \<Rightarrow> ended \<and> destroyOnce t \<and> destroy v t = Returns () t
    | Blocks t \<Rightarrow> \<exists>event. waitsFor v event t"
proof -
  have e: "\<exists>i \<in> set items. \<exists>e. rErr i = Some e \<and> stream_end e"
    using assms by (auto simp: stream_end_def)
  show ?thesis using read_ends [OF e, of v s] read_blocks [of v items s] by (cases "read v items s") simp_all
qed

theorem reader_ends_witness:
  "\<exists>t. read exVU [exItem [1] None, exItem [] (Some (Errorf '''' EOF ''''))] exOpen = Returns True t \<and> destroyOnce t"
proof -
  let ?items = "[exItem [1] None, exItem [] (Some (Errorf '''' EOF ''''))]"
  have "case read exVU ?items exOpen of Returns ended t \<Rightarrow> ended \<and> destroyOnce t \<and> destroy exVU t = Returns () t
      | Blocks t \<Rightarrow> \<exists>event. waitsFor exVU event t"
    by (rule reader_ends [of "exItem [] (Some (Errorf '''' EOF ''''))" _ "Errorf '''' EOF ''''"]) (simp_all add: exItem_def)
  then show ?thesis using exVU_select(2) by (cases "read exVU ?items exOpen") simp_all
qed

text \<open>
  An idle timeout does not sever the connection: the reader fires \<open>timeout\<close> and goes on, unless the
  event waits for ever; the socket keeps its state, connection and counters, no sample is pushed
  (also none of \<open>tcp_timeouts\<close>), and no error is reported.
\<close>

theorem timeout_keeps_connection:
  assumes "isReadable s" "is_timeout e" "\<not> errors_Is e EOF" "t = stateOf (readTail v (Some e) s)"
  shows "readTail v (Some e) s = (if waitsFor v ''timeout'' s then Blocks s else Returns True t) \<and> core t = core s \<and>
    samples t = samples s \<and> net t = net s \<and> sent t = sent s @ fired v None ''timeout'' [] s"
proof -
  have r: "readTail v (Some e) s = andThen (fire v ''timeout'' [] s) (\<lambda>_ s1. Returns True s1)"
    using assms(1-3) by (simp add: readTail_def)
  then have t: "t = stateOf (fire v ''timeout'' [] s)" using assms(4) by simp
  have "readTail v (Some e) s = (if waitsFor v ''timeout'' s then Blocks s else Returns True t)"
    unfolding r t by (rule fire_cases [of v "''timeout''" s "[]"]) simp_all
  then show ?thesis by (simp add: t sent_fire fire.core_op)
qed

theorem timeout_keeps_connection_witness:
  "core (stateOf (readTail exVU (Some (NetError ''i/o timeout'' True)) exOpen)) = core exOpen"
  using timeout_keeps_connection [of exOpen "NetError ''i/o timeout'' True" _ exVU]
  by (simp add: exOpen_fields)

text \<open>
  C15. Errors of a connection are reported once and the end of the stream is no error: of all the
  reads until the loop ends, the one that fails with something other than \<open>EOF\<close> (also wrapped) or a
  timeout, if there is one, is reported to the \<open>error\<close> handler, as a \<open>TCPError\<close> of the method
  \<open>read\<close>, and no other error event is queued.
\<close>

theorem read_errors_reported_once:
  assumes "\<And>t. SelectSend v t = Received" "\<forall>i \<in> set items. quiet i"
    and "state s = Open" "conn s = Some c" "handlers s ''error'' = Some (Callable fn)"
  shows "errorEvents (stateOf (readLoop v items s)) = errorEvents s @ map (readError fn) (filter fatal (consumed items)) \<and>
    length (filter fatal (consumed items)) \<le> 1"
  using readLoop_errors [OF assms] fatal_consumed by blast

theorem read_errors_reported_once_witness:
  "errorEvents (stateOf (readLoop exVU [exItem [1] None, exItem [] (Some (New ''connection reset''))] (on ''error'' 9 exOpen))) =
     [readError 9 (exItem [] (Some (New ''connection reset'')))]"
  using read_errors_reported_once [OF exVU_select(1), of "[exItem [1] None, exItem [] (Some (New ''connection reset''))]"
      "on ''error'' 9 exOpen" "RawConn 0" 9]
  by (simp add: exItem_def quiet_def fatal_def stream_end_def exOpen_fields del: readLoop.simps)
    (simp add: on_def events_def exOpen_fields errorEvents_def del: readLoop.simps, simp add: exOpen_def exNew_def newSocket_def)

section \<open>Writing\<close>

text \<open>
  C16. What \<open>write\<close> puts on the wire and what it counts: the write loop always ends; the bytes on the wire
  are a prefix of the data, in order and without gaps or repetition; \<open>bytes_written\<close> grows by a number \<open>w\<close>
  of them, and success is reported exactly when this is all of the data. The wire has more than was
  counted only when the last call of \<open>Write\<close> failed, and then by what that call had written before
  its error. The connection is only assumed never to claim more bytes than it was given.
\<close>

theorem write_delivers_prefix:
  assumes "writer_bounds v" "conn s = Some c"
  shows "\<exists>w m ops. w + m \<le> length data \<and> (fst (writeExecute v data opts s) = None \<longleftrightarrow> w = length data) \<and>
    bytesWritten (snd (writeExecute v data opts s)) = bytesWritten s + of_nat w \<and>
    net (snd (writeExecute v data opts s)) = net s @ ops \<and> concat (map delivered ops) = take (w + m) data \<and>
    (m = 0 \<or> (\<exists>bs e. ops \<noteq> [] \<and> last ops = OpWrite c bs m (Some e)))"
proof -
  obtain w r t where l: "writeLoop v c data 0 s = (w, r, t)" by (cases "writeLoop v c data 0 s")
  have "write_spec data 0 s (w, r, t)" using writeLoop_spec [OF assms(1), of 0 data s c] by (simp add: l)
  then obtain ops m where ops: "(r = None) = (w = length data)" "totalWritten t = totalWritten s + of_nat w"
      "net t = net s @ ops" "concat (map delivered ops) = take (w + m) data" "w + m \<le> length data"
      "m = 0 \<or> r \<noteq> None \<and> uncounted ops m"
    by (rule write_specE) simp
  have "op \<in> set ops \<Longrightarrow> \<exists>bs n err. op = OpWrite c bs n err" for op
    using writeLoop_ops [of v c data 0 s] ops(3) by (simp add: l)
  then have "uncounted ops m \<Longrightarrow> \<exists>bs e. ops \<noteq> [] \<and> last ops = OpWrite c bs m (Some e)"
    unfolding uncounted_def by (metis last_in_set netop.inject(4))
  then show ?thesis
    using assms(2) ops by (intro exI [of _ w] exI [of _ m] exI [of _ ops])
      (auto simp: writeExecute_def l bytesWritten_def writeMetrics_net)
qed

theorem write_delivers_prefix_witness:
  "bytesWritten (snd (writeExecute exVU [1, 2, 3] \<lparr>Encoding = [], woTags = []\<rparr> exOpen)) = bytesWritten exOpen + 3"
proof -
  have "fst (writeExecute exVU [1, 2, 3] \<lparr>Encoding = [], woTags = []\<rparr> exOpen) = None"
    using writeLoop_io_writer [OF exVU_writer(2), of "[1, 2, 3]" exOpen "RawConn 0" 3 None]
    by (simp add: writeExecute_def exOpen_fields) (simp add: exVU_def)
  then show ?thesis
    using write_delivers_prefix [OF exVU_writer(1) exOpen_fields(2), of "[1, 2, 3]" "\<lparr>Encoding = [], woTags = []\<rparr>"] by auto
qed

text \<open>
  C17. Over a connection that keeps the contract of \<open>io.Writer\<close> a write is one attempt: it adds one
  \<open>tcp_writes\<close> sample (while the context runs) and never one of \<open>tcp_partial_writes\<close>, and a failed
  one leaves \<open>bytes_written\<close> alone, also when part of the data was written.
\<close>

theorem partial_writes_never_counted:
  assumes "io_writer v" "conn s = Some c"
  shows "(\<exists>ts n. samples (snd (writeExecute v data opts s)) = samples s @ pushed v (tcpWrites (metrics s)) ts 1 n) \<and>
    (fst (writeExecute v data opts s) \<noteq> None \<longrightarrow> bytesWritten (snd (writeExecute v data opts s)) = bytesWritten s)"
proof (cases "data = []")
  case True
  then show ?thesis
    using assms(2) by (auto simp: writeExecute_def writeLoop_done writeMetrics_def addCounterMetrics_def push_def)
next
  case False
  obtain n err where w: "ConnWrite v (tick s) c data = (n, err)" by fastforce
  show ?thesis
    using assms(2) writeLoop_io_writer [OF assms(1) False w]
    by (cases err) (auto simp: writeExecute_def writeMetrics_def addCounterMetrics_def push_def bytesWritten_def wrote_def netcall_def)
qed

theorem partial_writes_never_counted_witness:
  "\<exists>ts n. samples (snd (writeExecute exVU [1] \<lparr>Encoding = [], woTags = []\<rparr> exOpen)) =
     samples exOpen @ pushed exVU (tcpWrites (metrics exOpen)) ts 1 n"
  using partial_writes_never_counted [OF exVU_writer(2) exOpen_fields(2)] by blast

text \<open>
  A write after \<open>destroy\<close> touches nothing: it only rejects its promise with
  \<open>no active connection\<close>; no byte, sample, event or error is recorded.
\<close>

theorem write_after_destroy:
  assumes "\<not> destroyOnce s"
  shows "writeGoroutine v p data opts (stateOf (destroy v s)) = settle p (Rejected errNoActiveConnection) (stateOf (destroy v s))"
  using destroy_state [OF assms, of v] by (simp add: writeGoroutine_def writeExecute_def)

theorem write_after_destroy_witness:
  "writeGoroutine exVU 4 [1, 2] \<lparr>Encoding = [], woTags = []\<rparr> (stateOf (destroy exVU exOpen)) =
     settle 4 (Rejected errNoActiveConnection) (stateOf (destroy exVU exOpen))"
  by (rule write_after_destroy) (simp add: exOpen_fields)

text \<open>
  C18. An argument that \<open>write\<close> refuses never reaches the network: no goroutine is started and no
  connection is called, the socket is left alone and one \<open>tcp_errors\<close> sample is pushed. Then the \<open>error\<close> handler
  gets a \<open>TCPError\<close> of the method \<open>write\<close> and the promise is rejected with the same error; except that,
  with a handler, nobody to receive the event and a running virtual user, \<open>write\<close> does not return and the
  promise stays unsettled.
\<close>

theorem write_refused:
  assumes "writePrepare G sb a wo = (Inl e, opts)"
  shows "let r = socketWrite G v sb p a wo s; t = stateOf r; ts = addToTagSet v (currentTags v s) (woTags opts) in
    net t = net s \<and> spawned t = spawned s \<and> core t = core s \<and>
    samples t = samples s @ pushed v (tcpErrors (metrics s)) ts 1 (tick s) \<and>
    (if (\<exists>fn. handlers s ''error'' = Some (Callable fn)) \<and> SelectSend v (Suc (tick s)) = Waits
     then blocked r \<and> settled t = settled s \<and> sent t = sent s
     else \<not> blocked r \<and>
       settled t = settled s @ [(p, Rejected (TCPError \<lparr>ErrName = ''TCPError'', ErrMethod = ''write'', ErrMessage = Error e\<rparr>))] \<and>
       sent t = sent s @ fired v None ''error'' [ArgError (TCPError (newTCPError e ''write''))] (addErrorMetrics v ts s))"
  using assms
  by (simp add: socketWrite_def Let_def rejectWithTCPError.core_op)
    (simp add: rejectWithTCPError_eq waitsFor_def Let_def newTCPError_def settle_def sent_fire)

theorem write_refused_witness:
  "settled (stateOf (socketWrite exGolib exVU exSobek 5 (VInt 1) None exOpen)) = settled exOpen @
     [(5, Rejected (TCPError \<lparr>ErrName = ''TCPError'', ErrMethod = ''write'',
        ErrMessage = ''invalid type: String or ArrayBuffer expected''\<rparr>))]"
proof -
  have "writePrepare exGolib exSobek (VInt 1) None = (Inl (Errorf '''' errInvalidType '': String or ArrayBuffer expected''),
      \<lparr>Encoding = '''', woTags = []\<rparr>)"
    by (simp add: writePrepare_def stringOrArrayBuffer_def exSobek_def)
  from write_refused [OF this, of exVU 5 exOpen] show ?thesis by (simp add: Let_def errInvalidType_def exVU_select)
qed

text \<open>
  C19. Every byte string can be sent as base64: the padded standard encoding is decoded under the
  name \<open>base64\<close>, and under \<open>base64url\<close> both the padded and the unpadded URL encoding are, in
  whatever case the name of the encoding is written.
\<close>

theorem base64_roundtrip:
  assumes "is_ascii e"
  shows "(map lower_char e = ''base64'' \<longrightarrow> decodeString G (b64Encode StdEncoding bs) e = Inr bs) \<and>
    (map lower_char e = ''base64url'' \<longrightarrow>
       decodeString G (b64Encode URLEncoding bs) e = Inr bs \<and> decodeString G (b64Encode RawURLEncoding bs) e = Inr bs)"
proof -
  have "decodeBase64URLString (b64Encode URLEncoding bs) = Inr bs"
    using raw_of_padded [of bs 0] url.decode_encode [of bs]
    by (auto simp: decodeBase64URLString_def DecodeString_def)
  then show ?thesis
    using assms std.decode_encode [of bs] rawurl.decode_encode [of bs]
    by (simp add: decodeString_def ToLower_def decodeBase64URLString_def Let_def)
qed

theorem base64_roundtrip_witness:
  "decodeString exGolib ''AQID'' ''BASE64'' = Inr [1, 2, 3] \<and> decodeString exGolib ''_w=='' ''Base64URL'' = Inr [255] \<and>
   decodeString exGolib ''_w'' ''base64url'' = Inr [255]"
proof -
  have "b64Encode StdEncoding [1, 2, 3] = ''AQID''" "b64Encode URLEncoding [255] = ''_w==''"
    "b64Encode RawURLEncoding [255] = ''_w''"
    by code_simp+
  moreover have "is_ascii ''BASE64''" "is_ascii ''Base64URL''" "is_ascii ''base64url''"
    "map lower_char ''BASE64'' = ''base64''" "map lower_char ''Base64URL'' = ''base64url''"
    "map lower_char ''base64url'' = ''base64url''"
    by code_simp+
  ultimately show ?thesis
    using base64_roundtrip [of "''BASE64''" exGolib "[1, 2, 3]"] base64_roundtrip [of "''Base64URL''" exGolib "[255]"]
      base64_roundtrip [of "''base64url''" exGolib "[255]"] by simp
qed

text \<open>
  C20. Under \<open>hex\<close> exactly the hexadecimal strings are decoded: the data is accepted, with the bytes
  it denotes, if and only if it is their encoding up to the case of the letters; anything else is
  refused.
\<close>

theorem hex_exact:
  assumes "is_ascii e" "map lower_char e = ''hex''"
  shows "decodeString G s e = Inr bs \<longleftrightarrow> map lower_char s = hexEncode bs"
  using assms hexDecode_sound [of s bs] hexDecode_complete [of s bs] by (auto simp: decodeString_def ToLower_def)

theorem hex_exact_witness: "decodeString exGolib ''fF00'' ''HEX'' = Inr [255, 0]"
proof -
  have "is_ascii ''HEX''" "map lower_char ''HEX'' = ''hex''" "map lower_char ''fF00'' = hexEncode [255, 0]"
    by code_simp+
  then show ?thesis using hex_exact [of "''HEX''" exGolib "''fF00''" "[255, 0]"] by simp
qed

text \<open>
  An encoding the extension does not know is refused with its name quoted, and text is passed
  on byte by byte under the names \<open>utf8\<close>, \<open>utf-8\<close>, \<open>ascii\<close> and without a name.
\<close>

theorem encodings_known:
  shows "(ToLower G e \<in> {'''', ''utf8'', ''utf-8'', ''ascii''} \<longrightarrow> decodeString G s e = Inr (bytes_of s)) \<and>
    (ToLower G e \<notin> {'''', ''utf8'', ''utf-8'', ''ascii'', ''base64'', ''base64url'', ''hex''} \<longrightarrow>
       (\<exists>err. decodeString G s e = Inl err \<and> errors_Is err errUnsupportedEncoding \<and>
          Error err = ''unsupported encoding '' @ Quote G e))"
  by (auto simp: decodeString_def Let_def errUnsupportedEncoding_def)

theorem encodings_known_witness:
  "\<exists>err. decodeString exGolib ''x'' ''latin1'' = Inl err \<and> Error err = ''unsupported encoding \"latin1\"''"
proof -
  have "ToLower exGolib ''latin1'' = ''latin1''" "Quote exGolib ''latin1'' = ''\"latin1\"''" by code_simp+
  then show ?thesis using encodings_known [of exGolib "''latin1''" "''x''"] by auto
qed

section \<open>Connecting\<close>

text \<open>
  C21. \<open>connect\<close> succeeds or fails as a whole. An attempt that failed leaves the socket disconnected, starts
  no reader, and its promise is rejected with a \<open>TCPError\<close> of the method \<open>connect\<close>. One that succeeded
  leaves it open with a connection; then the \<open>connect\<close> event is queued where there is a handler, exactly one
  reader is started, and the promise is resolved. The goroutine does not get to the promise (and starts no
  reader) exactly when the event it fires, \<open>error\<close> or \<open>connect\<close>, has a handler, nobody receives it and the
  virtual user runs, as after \<open>destroy\<close>.
\<close>

theorem connect_outcome:
  assumes "connectOpts s = Some co" "connectLocked v co (tags v s) s = (r, s1)"
  shows "let g = connectGoroutine v p s; t = stateOf g in
    handlers s1 = handlers s \<and> sent s1 = sent s \<and>
    (case r of
       Some err \<Rightarrow> state t = Disconnected \<and> spawned t = spawned s \<and>
         (if waitsFor v ''error'' (addErrorMetrics v (tags v s1) s1) then blocked g \<and> settled t = settled s
          else \<not> blocked g \<and> settled t = settled s @ [(p, Rejected (TCPError (newTCPError err ''connect'')))])
     | None \<Rightarrow> state t = Open \<and> conn t \<noteq> None \<and>
         (if waitsFor v ''connect'' s1 then blocked g \<and> settled t = settled s \<and> spawned t = spawned s \<and> sent t = sent s
          else \<not> blocked g \<and> settled t = settled s @ [(p, Resolved)] \<and> spawned t = spawned s @ [GoRead] \<and>
            sent t = sent s @ fired v None ''connect'' [] s1))"
proof -
  have u: "untouched s s1" using connectLocked_untouched [of s v co "tags v s"] by (simp add: assms(2))
  show ?thesis
  proof (cases r)
    case (Some err)
    have g: "connectGoroutine v p s = rejectWithTCPError v p err ''connect'' (tags v s1) s1"
      by (rule connectGoroutine_err [OF assms [unfolded Some]])
    have "state s1 = Disconnected" using connectLocked_err [of v co "tags v s" s] by (simp add: assms(2) Some)
    then show ?thesis
      using u by (simp add: g Some Let_def untouched_def) (simp add: rejectWithTCPError_eq Let_def settle_def)
  next
    case None
    have "state s1 = Open" "conn s1 \<noteq> None" using connectLocked_ok [of v co "tags v s" s] by (simp_all add: assms(2) None)
    then show ?thesis
      using u by (simp add: connectGoroutine_ok [OF assms [unfolded None]] None Let_def untouched_def sent_fire
          go_def settle_def addCounterMetrics_def push_def)
  qed
qed

theorem connect_outcome_witness:
  "settled (stateOf (connectGoroutine exVU 1 exNew)) = [(1, Resolved)] \<and> state (stateOf (connectGoroutine exVU 1 exNew)) = Open"
proof -
  obtain s1 where l: "connectLocked exVU exOptions (tags exVU exNew) exNew = (None, s1)"
    by (simp add: connectLocked_eq Let_def case_prod_unfold resolved_fields dialed_def addDurationMetricsFor_fst
        dial_def dialDone_def exVU_def exOptions_def)
  have "settled exNew = []" by (simp add: exNew_def newSocket_def)
  then show ?thesis using connect_outcome [OF exNew_fields(4) l, of 1] exVU_select(2) by (simp add: Let_def)
qed

text \<open>
  A connection attempt dials exactly what was resolved: when the host cannot be resolved nothing
  is dialled and the resolver's error is the result; otherwise the first call on the network is a
  dial of the resolved address with the port of the script (the port of the resolver is only kept
  for \<open>remote_port\<close>).
\<close>

theorem resolve_then_dial:
  shows "case ResolveAddr v (Suc (tick s)) (address co) of
      Inl e \<Rightarrow> fst (connectLocked v co ts s) = Some e \<and> net (snd (connectLocked v co ts s)) = net s
    | Inr (ip, port) \<Rightarrow> \<exists>rest. net (snd (connectLocked v co ts s)) =
        net s @ OpDial (JoinHostPort ip (Itoa (sint (Port co)))) # rest"
proof (cases "ResolveAddr v (Suc (tick s)) (address co)")
  case (Inl e)
  then show ?thesis by (simp add: connectLocked_eq Let_def case_prod_unfold resolved_fields)
next
  case (Inr a)
  obtain ip port where a: "a = (ip, port)" by (cases a)
  show ?thesis
    using Inr dialed_trace [of v co ts "snd (resolved v co ts s)"] resolved_addr [of v s co ip port ts]
    by (simp add: a connectLocked_eq Let_def case_prod_unfold resolved_fields)
qed

text \<open>
  C22. TLS never falls back and never leaks: with \<open>tls\<close> requested and the connection dialled, there are
  three outcomes. Without a TLS configuration the attempt fails and the connection is closed. When the handshake, with the
  configured server name or else the host of the script and with \<open>http/1.1\<close> as its only protocol,
  fails, the attempt fails with its error and the connection is closed. In both cases the socket keeps its
  state and connection. When the handshake succeeds the socket is open with the TLS client over the dialled
  connection, nothing is closed, and the only error left is that of setting the idle deadline.
\<close>

theorem tls_or_nothing:
  assumes "TLS co" "DialContext v (tick s) ''tcp'' (remoteAddr (endpoints s)) = Inr c"
    and "dial v co s = (err, t)" "d = OpDial (remoteAddr (endpoints s))"
  shows "case TLSConfig v of
      None \<Rightarrow> err = Some errNoTLSConfig \<and> net t = net s @ [d, OpClose c] \<and> conn t = conn s \<and> state t = state s
    | Some cfg \<Rightarrow> (let cc = \<lparr>ServerName = (if ServerName cfg = [] then Host co else ServerName cfg), NextProtos = [''http/1.1'']\<rparr> in
        case Handshake v (Suc (tick s)) (TLSConn c cc) of
          Some e \<Rightarrow> err = Some (Errorf ''TLS handshake failed: '' e '''') \<and>
            net t = net s @ [d, OpHandshake c cc, OpClose c] \<and> conn t = conn s \<and> state t = state s
        | None \<Rightarrow> conn t = Some (TLSConn c cc) \<and> state t = Open \<and>
            (if 0 < sint (timeout s)
             then \<exists>dl n. net t = net s @ [d, OpHandshake c cc, OpSetReadDeadline (TLSConn c cc) dl] \<and>
               err = SetReadDeadline v n (TLSConn c cc) dl
             else net t = net s @ [d, OpHandshake c cc] \<and> err = None))"
proof (cases "TLSConfig v")
  case None
  then show ?thesis using assms by (auto simp: dial_def Let_def wrapTLS_none) (simp add: netcall_def)
next
  case (Some cfg)
  let ?cc = "clientConfig co cfg"
  let ?s1 = "netcall d s"
  have k: "tick ?s1 = Suc (tick s)" by (simp add: netcall_def)
  note W = wrapTLS_some [OF Some, of co c ?s1, unfolded k]
  have "case Handshake v (Suc (tick s)) (TLSConn c ?cc) of
      Some e \<Rightarrow> err = Some (Errorf ''TLS handshake failed: '' e '''') \<and>
        net t = net s @ [d, OpHandshake c ?cc, OpClose c] \<and> conn t = conn s \<and> state t = state s
    | None \<Rightarrow> conn t = Some (TLSConn c ?cc) \<and> state t = Open \<and>
        (if 0 < sint (timeout s)
         then \<exists>dl n. net t = net s @ [d, OpHandshake c ?cc, OpSetReadDeadline (TLSConn c ?cc) dl] \<and>
           err = SetReadDeadline v n (TLSConn c ?cc) dl
         else net t = net s @ [d, OpHandshake c ?cc] \<and> err = None)"
  proof (cases "Handshake v (Suc (tick s)) (TLSConn c ?cc)")
    case None
    then have "(err, t) = dialDone v (TLSConn c ?cc) (netcall (OpHandshake c ?cc) ?s1)"
      using assms W by (simp add: dial_def Let_def)
    then show ?thesis
      using None by (auto simp: dialDone_def Let_def netcall_def split: option.splits if_splits)
  next
    case h: (Some e)
    then have "(err, t) = (Some (Errorf ''TLS handshake failed: '' e ''''), netcall (OpClose c) (netcall (OpHandshake c ?cc) ?s1))"
      using assms W by (simp add: dial_def Let_def)
    then show ?thesis using h by (simp add: netcall_def)
  qed
  then show ?thesis by (simp only: Some option.case clientConfig_def Let_def)
qed

definition exTLS :: "strmap vu" where
  "exTLS = exVU\<lparr>TLSConfig := Some \<lparr>ServerName = [], NextProtos = []\<rparr>, Handshake := \<lambda>_ _. Some (New ''bad certificate'')\<rparr>"

theorem tls_or_nothing_witness:
  "fst (dial exTLS (exOptions\<lparr>TLS := True\<rparr>) exNew) = Some (Errorf ''TLS handshake failed: '' (New ''bad certificate'') '''') \<and>
   conn (snd (dial exTLS (exOptions\<lparr>TLS := True\<rparr>) exNew)) = None \<and>
   last (net (snd (dial exTLS (exOptions\<lparr>TLS := True\<rparr>) exNew))) = OpClose (RawConn 0)"
proof -
  have "DialContext exTLS (tick exNew) ''tcp'' (remoteAddr (endpoints exNew)) = Inr (RawConn 0)"
    "TLSConfig exTLS = Some \<lparr>ServerName = [], NextProtos = []\<rparr>" "Handshake exTLS n c = Some (New ''bad certificate'')" for n c
    by (simp_all add: exTLS_def exVU_def)
  then show ?thesis
    using tls_or_nothing [of "exOptions\<lparr>TLS := True\<rparr>" exTLS exNew "RawConn 0" _ _ _, OF _ _ prod.collapse [symmetric] refl] exNew_fields(2)
    by (simp add: Let_def)
qed

text \<open>
  A deadline that cannot be set leaks the connection: with an idle timeout configured, a
  connection attempt whose \<open>SetReadDeadline\<close> fails is reported as failed and leaves the socket
  disconnected, but with the new connection still stored and nobody to close it.
\<close>

theorem failed_deadline_leaks:
  assumes "0 < sint (timeout s)" "\<not> TLS co" "ResolveAddr v (Suc (tick s)) (address co) = Inr (ip, port)"
    and "\<And>t a. DialContext v t ''tcp'' a = Inr c" "\<And>t d. SetReadDeadline v t c d = Some e"
  shows "fst (connectLocked v co ts s) = Some e \<and> state (snd (connectLocked v co ts s)) = Disconnected \<and>
    conn (snd (connectLocked v co ts s)) = Some c \<and>
    (\<exists>dl. net (snd (connectLocked v co ts s)) =
       net s @ [OpDial (JoinHostPort ip (Itoa (sint (Port co)))), OpSetReadDeadline c dl])"
proof -
  let ?r = "snd (resolved v co ts s)"
  have r: "fst (resolved v co ts s) = None" "net ?r = net s" "timeout ?r = timeout s"
    using assms(3) resolved_untouched [of s v co ts] by (simp_all add: resolved_fields untouched_def)
  have a: "remoteAddr (endpoints ?r) = JoinHostPort ip (Itoa (sint (Port co)))" by (rule resolved_addr [OF assms(3)])
  have "fst (dialed v co ts ?r) = Some e" "conn (snd (dialed v co ts ?r)) = Some c"
    "\<exists>dl. net (snd (dialed v co ts ?r)) = net s @ [OpDial (JoinHostPort ip (Itoa (sint (Port co)))), OpSetReadDeadline c dl]"
    using assms(1,2,4,5) r(2,3) a
    by (auto simp: dialed_def addDurationMetricsFor_fst addDurationMetricsFor_fields dial_def dialDone_def Let_def
        netcall_def ticked_def split: option.split)
  then show ?thesis using r by (simp add: connectLocked_eq Let_def case_prod_unfold)
qed

theorem failed_deadline_leaks_witness:
  "conn (snd (connectLocked (exVU\<lparr>SetReadDeadline := \<lambda>_ _ _. Some (New ''deadline'')\<rparr>) exOptions [] (exNew\<lparr>timeout := 5\<rparr>))) =
     Some (RawConn 0)"
  using failed_deadline_leaks [of "exNew\<lparr>timeout := 5\<rparr>" exOptions "exVU\<lparr>SetReadDeadline := \<lambda>_ _ _. Some (New ''deadline'')\<rparr>"
      "''127.0.0.1''" 8080 "RawConn 0" "New ''deadline''" "[]"]
  by (simp add: exVU_def exOptions_def)

text \<open>
  C23. \<open>destroy\<close> is not final: a \<open>connect\<close> after it that succeeds opens the socket again, and every
  later \<open>destroy\<close>, that of the reader's end included, then does nothing, so that the new connection
  stays open. The promise is resolved, unless there is a \<open>connect\<close> handler whose event nobody receives (the
  loop goroutine was told to end): then the goroutine of \<open>connect\<close> hangs with the socket open and the
  promise unsettled.
\<close>

theorem reconnect_after_destroy:
  assumes "destroyOnce s" "connectOpts s = Some co" "connectLocked v co (tags v s) s = (None, s1)"
  shows "let g = connectGoroutine v p s; t = stateOf g in
    state t = Open \<and> conn t \<noteq> None \<and> destroy v t = Returns () t \<and>
    (if waitsFor v ''connect'' s1 then blocked g \<and> settled t = settled s
     else \<not> blocked g \<and> settled t = settled s @ [(p, Resolved)])"
proof -
  have u: "untouched s s1" using connectLocked_untouched [of s v co "tags v s"] by (simp add: assms(3))
  have "state s1 = Open" "conn s1 \<noteq> None" using connectLocked_ok [of v co "tags v s" s] by (simp_all add: assms(3))
  then show ?thesis
    using u assms(1) by (simp add: connectGoroutine_ok [OF assms(2,3)] Let_def untouched_def destroy_eq
        go_def settle_def addCounterMetrics_def push_def)
qed

theorem reconnect_after_destroy_witness:
  "let t = stateOf (connectGoroutine exVU 1 (exNew\<lparr>destroyOnce := True\<rparr>)) in state t = Open \<and> destroy exVU t = Returns () t"
proof -
  let ?s = "exNew\<lparr>destroyOnce := True\<rparr>"
  obtain s1 where "connectLocked exVU exOptions (tags exVU ?s) ?s = (None, s1)"
    by (simp add: connectLocked_eq Let_def case_prod_unfold resolved_fields dialed_def addDurationMetricsFor_fst
        dial_def dialDone_def exVU_def exOptions_def)
  then show ?thesis
    using reconnect_after_destroy [of ?s exOptions exVU s1 1] by (simp add: Let_def exNew_fields)
qed

section \<open>Timeout and teardown\<close>

text \<open>
  C24. \<open>setTimeout\<close> means milliseconds: up to 9223372036854 of them the timeout is stored exactly, in
  nanoseconds and without overflow; zero and negative arguments disable it. A connected socket gets
  the new deadline at once, counted from now, or has it cleared.
\<close>

theorem setTimeout_exact:
  assumes "sint ms \<le> 9223372036854"
  shows "sint (timeout (snd (setTimeout v ms s))) = max 0 (sint ms) * 1000000 \<and>
    (conn s = Some c \<longrightarrow> (\<exists>dl. net (snd (setTimeout v ms s)) = net s @ [OpSetReadDeadline c dl] \<and>
       dl = (if 0 < sint ms then Some (Now v (tick s) + sint ms * 1000000) else None)))"
proof -
  have small: "sint (ms * Millisecond) = sint ms * 1000000" if "0 < sint ms"
    using assms that by (rule timeout_product [rotated])
  show ?thesis
  proof (cases "0 < sint ms")
    case True
    then show ?thesis
      using small by (auto simp: setTimeout_def Let_def time_Add_def netcall_def ticked_def max_def split: option.split)
  next
    case False
    then show ?thesis
      by (auto simp: setTimeout_def Let_def netcall_def max_def split: option.split)
  qed
qed

theorem setTimeout_exact_witness:
  "sint (timeout (snd (setTimeout exVU 1500 exOpen))) = 1500000000"
  using setTimeout_exact [of 1500 exVU exOpen] by simp

text \<open>
  Beyond that the product wraps around: the smallest argument that does, 9223372036855
  milliseconds, becomes a negative timeout, which the code treats as none; the deadline of a
  connected socket is cleared although a timeout was asked for.
\<close>

theorem setTimeout_overflow:
  shows "sint (timeout (snd (setTimeout v 9223372036855 s))) < 0 \<and>
    net (snd (setTimeout v 9223372036855 s)) =
      net s @ (case conn s of None \<Rightarrow> [] | Some c \<Rightarrow> [OpSetReadDeadline c None])"
  by (simp add: setTimeout_def Let_def Millisecond_def netcall_def split: option.split)

text \<open>
  C25. What \<open>destroy\<close> does, and does once: the connection, if there is one, is closed by exactly one
  call and its age, the time since \<open>connect\<close> in whole milliseconds, is pushed as one \<open>tcp_socket_duration\<close>
  sample (while the context runs); the state is \<open>destroyed\<close> and the addresses read \<open>undefined\<close>. Then the \<open>close\<close>
  event goes to its handler, the context is cancelled, and a second call changes nothing; only when
  that event has a handler and nobody receives it does \<open>destroy\<close> not return.
\<close>

theorem destroy_effects:
  assumes "\<not> destroyOnce s"
  shows "let g = destroy v s; t = stateOf g; now = Now v (tick s);
      age = (if now - connectTime s < 2 ^ 63 then (now - connectTime s) div 1000000 else 9223372036854) in
    net t = net s @ (case conn s of None \<Rightarrow> [] | Some c \<Rightarrow> [OpClose c]) \<and>
    (connectTime s \<le> now \<longrightarrow> samples t = samples s @ (if conn s = None \<or> CtxDone v (Suc (Suc (tick s))) then [] else
       [\<lparr>sMetric = tcpDuration (metrics s), sTags = tags v (ticked s), sTime = Now v (Suc (Suc (tick s))), sValue = age\<rparr>])) \<and>
    readyState t = ''destroyed'' \<and> conn t = None \<and> remoteIP_get t = None \<and>
    (if waitsFor v ''close'' (torn v s) then blocked g \<and> sent t = sent s \<and> cancelled t = cancelled s
     else \<not> blocked g \<and> sent t = sent s @ fired v None ''close'' [] (torn v s) \<and> cancelled t \<and> destroy v t = Returns () t)"
proof -
  have "samples (stateOf (destroy v s)) = samples (torn v s)" "net (stateOf (destroy v s)) = net (torn v s)"
    using assms by (simp_all add: destroy_eq)
  moreover have "connectTime s \<le> Now v (tick s) \<Longrightarrow> Milliseconds (time_Sub (Now v (tick s)) (connectTime s)) =
      (if Now v (tick s) - connectTime s < 2 ^ 63 then (Now v (tick s) - connectTime s) div 1000000 else 9223372036854)"
    using Milliseconds_Sub Milliseconds_max by auto
  ultimately have "net (stateOf (destroy v s)) = net s @ (case conn s of None \<Rightarrow> [] | Some c \<Rightarrow> [OpClose c])"
    "connectTime s \<le> Now v (tick s) \<Longrightarrow> samples (stateOf (destroy v s)) =
       samples s @ (if conn s = None \<or> CtxDone v (Suc (Suc (tick s))) then [] else
         [\<lparr>sMetric = tcpDuration (metrics s), sTags = tags v (ticked s), sTime = Now v (Suc (Suc (tick s))),
           sValue = (if Now v (tick s) - connectTime s < 2 ^ 63 then (Now v (tick s) - connectTime s) div 1000000 else 9223372036854)\<rparr>])"
    by (simp_all add: torn_net torn_samples pushed_def)
  then show ?thesis
    unfolding Let_def using assms by (intro conjI impI) (simp_all add: destroy_eq readyState_def remoteIP_get_def sent_fire)
qed

theorem destroy_effects_witness:
  "net (stateOf (destroy exVU exOpen)) = [OpClose (RawConn 0)] \<and>
   map sValue (samples (stateOf (destroy exVU exOpen))) = [(Now exVU (tick exOpen) - connectTime exOpen) div 1000000] \<and>
   readyState (stateOf (destroy exVU exOpen)) = ''destroyed''"
proof -
  have "net exOpen = []" "samples exOpen = []" "connectTime exOpen \<le> Now exVU (tick exOpen)"
    "Now exVU (tick exOpen) - connectTime exOpen < 2 ^ 63" by (simp_all add: exOpen_def exNew_def newSocket_def exVU_def)
  moreover have "\<not> CtxDone exVU n" for n by (simp add: exVU_def)
  ultimately show ?thesis using destroy_effects [of exOpen exVU] by (simp add: exOpen_fields Let_def)
qed

section \<open>Metrics and tags\<close>

text \<open>
  C26. Which tags the samples of a socket carry. Those of \<open>connect\<close> carry the tags that \<open>tags\<close> gives when the
  attempt starts or, for its error, when it has ended, and that of \<open>destroy\<close> those it gives then: the resolved
  address wins over port and host, these over the tags given to \<open>connect\<close>, these over the tags of the
  constructor, these over \<open>proto\<close>, and that over the tags of the virtual user. The samples of the reader, its
  errors included, carry only the tags of the virtual user, and those of the attempt to write these and the
  tags of its options.
\<close>

theorem tag_precedence:
  assumes "tagset_laws v get" "connectOpts s = Some co"
  shows "get (tags v s) k =
    (if k = ''ip'' \<and> remoteIP (endpoints s) \<noteq> [] then Some (remoteIP (endpoints s))
     else if k = ''port'' then Some (Itoa (sint (Port co)))
     else if k = ''host'' then Some (Host co)
     else case map_of (coTags co) k of Some x \<Rightarrow> Some x
     | None \<Rightarrow> (case map_of (soTags (socketOpts s)) k of Some x \<Rightarrow> Some x
       | None \<Rightarrow> if k = ''proto'' then Some ''TCP'' else get (currentTags v s) k)) \<and>
    tagged (\<lambda>ts. ts = tags v s \<or> ts = tags v (stateOf (connectExecute v s))) s (stateOf (connectGoroutine v p s)) \<and>
    tagged (\<lambda>ts. ts = tags v (ticked s)) s (stateOf (destroy v s)) \<and>
    tagged (\<lambda>ts. \<exists>n. ts = CurrentTags v n) s (stateOf (readData v c bs s)) \<and>
    tagged (\<lambda>ts. \<exists>n. ts = CurrentTags v n) s (stateOf (readTail v err s)) \<and>
    tagged (\<lambda>ts. \<exists>n. get ts = get (CurrentTags v n) ++ map_of (woTags opts)) s (snd (writeExecute v data opts s))"
proof (intro conjI)
  show "tagged (\<lambda>ts. \<exists>n. get ts = get (CurrentTags v n) ++ map_of (woTags opts)) s (snd (writeExecute v data opts s))"
    using writeExecute_tagged [of v opts s data] addToTagSet_get [OF assms(1)] unfolding tagged_def by metis
qed (rule connectGoroutine_tagged destroy_tagged readData_tagged readTail_tagged
    | (unfold tags_get [OF assms], auto simp: map_add_def split: option.splits))+

theorem tag_precedence_witness: "map_of (tags exVU exOpen) ''proto'' = Some ''TCP'' \<and> map_of (tags exVU exOpen) ''port'' = Some ''8080''"
proof -
  have "Itoa 8080 = ''8080''" by (simp add: Itoa_def) (simp add: itoa_nat.simps char_of_eq_iff)
  moreover have "socketOpts exOpen = \<lparr>soTags = []\<rparr>" by (simp add: exOpen_def exNew_def newSocket_def)
  ultimately show ?thesis
    using tag_precedence [OF exVU_tags exOpen_fields(4), of "''proto''"] tag_precedence [OF exVU_tags exOpen_fields(4), of "''port''"]
    by (simp add: exOptions_def)
qed

text \<open>
  The tag set of a map does not depend on the order in which Go happens to iterate over it, so
  that equal tags give equal time series, for every implementation of tag sets.
\<close>

theorem tagset_independent_of_map_order:
  assumes "mset tg = mset tg'" "distinct (map fst tg)"
  shows "addToTagSet v ts tg = addToTagSet v ts tg'"
  using addToTagSet_order [OF assms] .

theorem tagset_independent_of_map_order_witness:
  "addToTagSet exVU [] [(''a'', ''1''), (''b'', ''2'')] = addToTagSet exVU [] [(''b'', ''2''), (''a'', ''1'')]"
  by (rule tagset_independent_of_map_order) (simp_all add: add_mset_commute)

section \<open>The module\<close>

text \<open>
  C27. The constructor leaks nothing when it throws: it starts the socket's loop goroutine exactly
  when the options converted and every property was defined, in which case the object has all
  thirteen of them; otherwise it throws and no goroutine was started.
\<close>

theorem constructor_all_or_nothing:
  assumes "newSocketObject m ex st args = (err, props, s)"
  shows "sock_inv s \<and> prefix props socketProps \<and> (err = None \<longleftrightarrow> spawned s = [GoLoop]) \<and> (err \<noteq> None \<longleftrightarrow> spawned s = []) \<and>
    (err = None \<longrightarrow> props = socketProps)"
proof -
  have "sock_inv s" by (metis newSocketObject_inv assms snd_conv)
  then show ?thesis using newSocketObject_spec [OF assms] by auto
qed

theorem constructor_all_or_nothing_witness:
  "\<exists>props (s :: (nat, strmap) rt). newSocketObject (NewModuleInstance exRegistry) (\<lambda>_. Inr \<lparr>soTags = []\<rparr>)
      (\<lambda>n. if n = ''on'' then Some (New ''frozen'') else None) [()] = (Some (New ''frozen''), props, s) \<and> spawned s = []"
proof -
  obtain err props and s :: "(nat, strmap) rt" where
    r: "newSocketObject (NewModuleInstance exRegistry) (\<lambda>_. Inr \<lparr>soTags = []\<rparr>)
      (\<lambda>n. if n = ''on'' then Some (New ''frozen'') else None) [()] = (err, props, s)"
    by (cases rule: prod_cases3)
  then have "err = Some (New ''frozen'')"
    by (auto simp: newSocketObject_def socketProps_def Let_def)
  then show ?thesis using constructor_all_or_nothing [OF r] r by auto
qed

text \<open>
  Whatever a script calls on a socket, and in whatever order the goroutines it started then run,
  the socket is consistent between two calls and where one of them waits for ever, never \<open>opening\<close>, and nothing
  recorded outside it (samples, events, network calls, settled promises) is ever taken back.
\<close>

theorem any_script_keeps_invariant:
  shows "sock_inv (stateOf (performAll G v sb cs (newSocket m))) \<and> grows (newSocket m) (stateOf (performAll G v sb cs (newSocket m)))"
  using performAll.op_inv [OF newSocket_inv(1)] performAll.op_grows by blast

section \<open>Echo servers and test scripts\<close>

text \<open>
  C33. A test script finds the echo servers: after \<open>Setup\<close>, as the tests of the repository call it before they
  run, the runtime of every script has in \<open>__ENV\<close> the environment of the process, and there the host,
  ports and URL that the accessors of the servers return; the ports are those of the listeners on which
  the servers are accepting.
\<close>

theorem script_finds_echo_servers:
  assumes "Setup lib s = (Inr srv, t)"
    and "distinct (map fst kvs)" "map_of kvs = environ t" "\<forall>(k, x) \<in> set kvs. CHR ''='' \<notin> set k"
    and "newTestRuntime h (map (\<lambda>(k, x). k @ ''='' @ x) kvs) pairs u = (Some (mods, env), u')"
  shows "env = environ t \<and> list_all (\<lambda>(k, x). env k = Some x) (exports srv) \<and>
    tcpAddrPort lib (tcpListener (tcp srv)) = Some (serverPort srv) \<and> tcpListener (tcp srv) \<in> set (accepting t) \<and>
    tcpAddrPort lib (httpListener (http srv)) = Some (HTTPPort srv) \<and> httpListener (http srv) \<in> set (httpServing t)"
proof -
  have "env = map_of (rev kvs)" using newTestRuntime_env [OF assms(5)] envOf_pairs [OF assms(4)] by simp
  then have env: "env = environ t" using map_of_rev_distinct [OF assms(2)] assms(3) by simp
  note S = Setup_ok [OF assms(1)]
  have "env k = Some x" if "(k, x) \<in> set (exports srv)" for k x
    using map_of_is_SomeI [OF exports_distinct that] env S(1) by simp
  then show ?thesis using env S(2-5) by (auto simp: list_all_iff)
qed

definition exOSLib :: "nat oslib" where
  "exOSLib = \<lparr>netListen = (\<lambda>n _ _. Inr n), tcpAddrPort = (\<lambda>l. Some (40000 + int l)), addrString = (\<lambda>_. ''127.0.0.1''),
     lnClose = (\<lambda>_ _. None), osSetenv = (\<lambda>_ _ _. None), httpShutdown = (\<lambda>_ _. None)\<rparr>"

definition exOS :: "nat os" where
  "exOS = \<lparr>opened = [], closed = [], accepting = [], httpServing = [], environ = Map.empty, oslogs = [], ostick = 0\<rparr>"

lemma exSetup: "\<exists>srv t. Setup exOSLib exOS = (Inr srv, t) \<and> serverPort srv = 40000 \<and> environ t = map_of (exports srv)"
proof -
  obtain srv t where s: "Setup exOSLib exOS = (Inr srv, t)"
    by (simp add: Setup_def NewServer_def NewTCPServer_def NewHTTPServer_def listen_def exOSLib_def Let_def Setenv_def orReturn_def
        setenv_def case_prod_unfold)
  then have "serverPort srv = 40000"
    by (auto simp: Setup_def NewServer_def NewTCPServer_def NewHTTPServer_def listen_def exOSLib_def exOS_def Let_def Setenv_def
        orReturn_def setenv_def serverStart_def tcpStart_def serverPort_def slog_def case_prod_unfold)
  then show ?thesis using s Setup_ok(1) [OF s] by (simp add: exOS_def)
qed

theorem script_finds_echo_servers_witness:
  "\<exists>srv t mods env u. Setup exOSLib exOS = (Inr srv, t) \<and>
     newTestRuntime exHarness (map (\<lambda>(k, x). k @ ''='' @ x) (exports srv)) [] newTest = (Some (mods, env), u) \<and>
     env ''TCP_ECHO_PORT'' = Some (Itoa 40000)"
proof -
  obtain srv t where s: "Setup exOSLib exOS = (Inr srv, t)" "serverPort srv = 40000" "environ t = map_of (exports srv)"
    using exSetup by blast
  obtain mods env u where r:
    "newTestRuntime exHarness (map (\<lambda>(k, x). k @ ''='' @ x) (exports srv)) [] newTest = (Some (mods, env), u)"
    by (simp add: newTestRuntime_def exHarness_def requireNoError_def Let_def)
  have "\<forall>(k, x) \<in> set (exports srv). CHR ''='' \<notin> set k"
    by (simp add: exports_def EnvTCPEchoHost_def EnvTCPEchoPort_def EnvHTTPEchoHost_def EnvHTTPEchoPort_def EnvHTTPEchoURL_def)
  from script_finds_echo_servers [OF s(1) exports_distinct s(3) [symmetric] this r]
  have "list_all (\<lambda>(k, x). env k = Some x) (exports srv)" by blast
  then have "env ''TCP_ECHO_PORT'' = Some (Itoa 40000)" using s(2) by (simp add: exports_def EnvTCPEchoPort_def)
  with s(1) r show ?thesis by blast
qed

end
